theory Spec2Isabelle
  imports Main
begin

section \<open>Relay: subscriber registry and target arbitration (src/bridge/server.js)\<close>

subsection \<open>JavaScript values that reach the registry\<close>

text \<open>
  A client id is whatever \<^verbatim>\<open>payload.clientId\<close> holds. The listener of this repository
  sends a string; a message without the field yields \<^verbatim>\<open>undefined\<close>, and the
  connection-local variable starts as \<^verbatim>\<open>null\<close>. Other JSON values (numbers, booleans,
  objects) are not modelled.
\<close>

datatype jsval = JUndefined | JNull | JStr string

text \<open>JavaScript truthiness of such a value: only a non-empty string is truthy.\<close>

fun truthy :: "jsval \<Rightarrow> bool" where
  "truthy (JStr s) = (s \<noteq> [])"
| "truthy JUndefined = False"
| "truthy JNull = False"

type_synonym ws_id = nat

text \<open>The value stored under a client id by \<^verbatim>\<open>subscribers.set\<close>.\<close>

record client =
  ws :: ws_id
  projectPath :: string
  projectName :: string
  tty :: string
  pid :: int
  lastHeartbeat :: int

subsection \<open>The JavaScript Map\<close>

text \<open>
  A \<^verbatim>\<open>Map\<close> iterates in insertion order, and \<^verbatim>\<open>set\<close> on a key that is present
  keeps the key's position. It is modelled as an association list.
\<close>

fun Map_has :: "('k \<times> 'v) list \<Rightarrow> 'k \<Rightarrow> bool" where
  "Map_has [] k = False"
| "Map_has ((k', v') # m) k = (if k' = k then True else Map_has m k)"

fun Map_get :: "('k \<times> 'v) list \<Rightarrow> 'k \<Rightarrow> 'v option" where
  "Map_get [] k = None"
| "Map_get ((k', v') # m) k = (if k' = k then Some v' else Map_get m k)"

fun Map_set :: "('k \<times> 'v) list \<Rightarrow> 'k \<Rightarrow> 'v \<Rightarrow> ('k \<times> 'v) list" where
  "Map_set [] k v = [(k, v)]"
| "Map_set ((k', v') # m) k v = (if k' = k then (k, v) # m else (k', v') # Map_set m k v)"

fun Map_delete :: "('k \<times> 'v) list \<Rightarrow> 'k \<Rightarrow> ('k \<times> 'v) list" where
  "Map_delete [] k = []"
| "Map_delete ((k', v') # m) k = (if k' = k then m else (k', v') # Map_delete m k)"

definition Map_values :: "('k \<times> 'v) list \<Rightarrow> 'v list" where
  "Map_values m = map snd m"

definition Map_size :: "('k \<times> 'v) list \<Rightarrow> nat" where
  "Map_size m = length m"

text \<open>How many entries of the table carry a given key.\<close>

definition records_for :: "('k \<times> 'v) list \<Rightarrow> 'k \<Rightarrow> nat" where
  "records_for m k = length (filter (\<lambda>kv. fst kv = k) m)"

subsection \<open>Messages of a subscriber connection\<close>

text \<open>
  The fields of a parsed message object that the handler reads; \<open>None\<close> is a missing
  field. A message that is valid JSON but not an object (a number, a string, an array)
  has none of the fields.
\<close>

record payload =
  p_type :: "string option"
  p_clientId :: jsval
  p_projectPath :: "string option"
  p_projectName :: "string option"
  p_tty :: "string option"
  p_pid :: "int option"

text \<open>
  Outcome of \<^verbatim>\<open>JSON.parse(raw)\<close>: it throws, or yields \<^verbatim>\<open>null\<close>, or yields a value
  whose properties can be read.
\<close>

datatype parsed = ParseError | JsonNull | JsonObject payload

datatype js_error = TypeError

text \<open>\<^verbatim>\<open>x || d\<close> on an optional string: a missing or empty string gives the default.\<close>

fun or_default :: "string option \<Rightarrow> string \<Rightarrow> string" where
  "or_default None d = d"
| "or_default (Some s) d = (if s = [] then d else s)"

fun or_zero :: "int option \<Rightarrow> int" where
  "or_zero None = 0"
| "or_zero (Some n) = n"

text \<open>Lines written to stdout and stderr, one constructor per message text.\<close>

datatype out_line =
    CliRegistered "string option" "string option"
  | CliDisconnected string
  | SubscriberParseFailed
  | RouterDirect string
  | RouterFocus string
  | RouterFocusTty string string
  | RouterHeartbeat string
  | RouterConflict nat "string list"
  | RouterTimeout "string list"
  | McpForwarded string

text \<open>
  The relay's state: the module-level \<^verbatim>\<open>subscribers\<close> map, the variable
  \<^verbatim>\<open>clientId\<close> that each call of \<^verbatim>\<open>handleSubscriberConnection\<close> closes over (one per
  connection, \<^verbatim>\<open>null\<close> at first), the ready state of each transport, what was sent on
  each transport, the output written, and the number of focus probes made.
\<close>

record relay =
  subscribers :: "(jsval \<times> client) list"
  clientId :: "ws_id \<Rightarrow> jsval"
  readyState :: "ws_id \<Rightarrow> nat"
  sent :: "(ws_id \<times> string) list"
  stdout :: "out_line list"
  probes :: nat

definition relay_init :: relay where
  "relay_init = \<lparr> subscribers = [], clientId = (\<lambda>_. JNull), readyState = (\<lambda>_. 1),
     sent = [], stdout = [], probes = 0 \<rparr>"

definition write_line :: "out_line \<Rightarrow> relay \<Rightarrow> relay" where
  "write_line l s = s\<lparr>stdout := stdout s @ [l]\<rparr>"

subsection \<open>handleSubscriberConnection\<close>

text \<open>The \<^verbatim>\<open>message\<close> handler of connection \<open>w\<close>, with \<open>now\<close> the value of \<^verbatim>\<open>Date.now()\<close>.\<close>

definition register_client :: "ws_id \<Rightarrow> payload \<Rightarrow> int \<Rightarrow> client" where
  "register_client w p now =
     \<lparr> ws = w,
       projectPath = or_default (p_projectPath p) [],
       projectName = or_default (p_projectName p) ''Unknown'',
       tty = or_default (p_tty p) ''unknown'',
       pid = or_zero (p_pid p),
       lastHeartbeat = now \<rparr>"

definition handle_register :: "ws_id \<Rightarrow> payload \<Rightarrow> int \<Rightarrow> relay \<Rightarrow> relay" where
  "handle_register w p now s =
     (if p_type p = Some ''register'' then
        write_line (CliRegistered (p_projectName p) (p_tty p))
          (s\<lparr> clientId := (clientId s)(w := p_clientId p),
              subscribers := Map_set (subscribers s) (p_clientId p) (register_client w p now) \<rparr>)
      else s)"

definition handle_heartbeat :: "payload \<Rightarrow> int \<Rightarrow> relay \<Rightarrow> relay" where
  "handle_heartbeat p now s =
     (if p_type p = Some ''heartbeat'' then
        (case Map_get (subscribers s) (p_clientId p) of
           Some c \<Rightarrow>
             s\<lparr>subscribers := Map_set (subscribers s) (p_clientId p) (c\<lparr>lastHeartbeat := now\<rparr>)\<rparr>
         | None \<Rightarrow> s)
      else s)"

fun on_message :: "ws_id \<Rightarrow> parsed \<Rightarrow> int \<Rightarrow> relay \<Rightarrow> js_error + relay" where
  "on_message w ParseError now s = Inr (write_line SubscriberParseFailed s)"
| "on_message w JsonNull now s = Inl TypeError"
| "on_message w (JsonObject p) now s = Inr (handle_heartbeat p now (handle_register w p now s))"

text \<open>The \<^verbatim>\<open>close\<close> handler of connection \<open>w\<close>.\<close>

definition on_close :: "ws_id \<Rightarrow> relay \<Rightarrow> relay" where
  "on_close w s =
     (if truthy (clientId s w) \<and> Map_has (subscribers s) (clientId s w) then
        (case Map_get (subscribers s) (clientId s w) of
           Some c \<Rightarrow>
             (write_line (CliDisconnected (projectName c)) s)
               \<lparr>subscribers := Map_delete (subscribers s) (clientId s w)\<rparr>
         | None \<Rightarrow> s)
      else s)"

text \<open>Events of the subscriber port, and a run of them; an uncaught exception ends the run.\<close>

datatype sub_event = Message ws_id parsed int | Close ws_id

fun step :: "sub_event \<Rightarrow> relay \<Rightarrow> js_error + relay" where
  "step (Message w m now) s = on_message w m now s"
| "step (Close w) s = Inr (on_close w s)"

fun run :: "sub_event list \<Rightarrow> relay \<Rightarrow> js_error + relay" where
  "run [] s = Inr s"
| "run (e # es) s = (case step e s of Inl err \<Rightarrow> Inl err | Inr s' \<Rightarrow> run es s')"

subsection \<open>selectTargetClient\<close>

text \<open>\<^verbatim>\<open>hay.includes(needle)\<close>: the needle occurs as a contiguous part of the haystack.\<close>

fun startsWith :: "string \<Rightarrow> string \<Rightarrow> bool" where
  "startsWith hay [] = True"
| "startsWith [] (n # ns) = False"
| "startsWith (h # hs) (n # ns) = (h = n \<and> startsWith hs ns)"

fun String_includes :: "string \<Rightarrow> string \<Rightarrow> bool" where
  "String_includes [] needle = (needle = [])"
| "String_includes (h # hs) needle = (startsWith (h # hs) needle \<or> String_includes hs needle)"

text \<open>The loop of strategy 1 over \<^verbatim>\<open>subscribers.values()\<close>, for a truthy window title.\<close>

fun focus_match :: "string \<Rightarrow> client list \<Rightarrow> (client \<times> out_line) option" where
  "focus_match activeWindow [] = None"
| "focus_match activeWindow (c # cs) =
     (if projectPath c \<noteq> [] \<and> String_includes activeWindow (projectPath c) then
        Some (c, RouterFocus (projectName c))
      else if tty c \<noteq> [] \<and> String_includes activeWindow (tty c) then
        Some (c, RouterFocusTty (projectName c) (tty c))
      else focus_match activeWindow cs)"

definition focus_strategy :: "string option \<Rightarrow> client list \<Rightarrow> (client \<times> out_line) option" where
  "focus_strategy activeWindow cs =
     (case activeWindow of
        None \<Rightarrow> None
      | Some t \<Rightarrow> if t = [] then None else focus_match t cs)"

definition recentClients :: "int \<Rightarrow> client list \<Rightarrow> client list" where
  "recentClients now cs = filter (\<lambda>c. now - lastHeartbeat c < 3000) cs"

text \<open>
  \<open>detectActiveTTY\<close> is the result the probe would give if called (\<open>None\<close> is
  \<^verbatim>\<open>null\<close>); the field \<open>probes\<close> counts the calls actually made.
\<close>

definition selectTargetClient :: "string option \<Rightarrow> int \<Rightarrow> relay \<Rightarrow> client option \<times> relay" where
  "selectTargetClient detectActiveTTY now s =
     (if Map_size (subscribers s) = 0 then (None, s)
      else if Map_size (subscribers s) = 1 then
        (case Map_values (subscribers s) of
           c # _ \<Rightarrow> (Some c, write_line (RouterDirect (projectName c)) s)
         | [] \<Rightarrow> (None, s))
      else
        (let s1 = s\<lparr>probes := probes s + 1\<rparr> in
         case focus_strategy detectActiveTTY (Map_values (subscribers s)) of
           Some (c, l) \<Rightarrow> (Some c, write_line l s1)
         | None \<Rightarrow>
            (let recent = recentClients now (Map_values (subscribers s)) in
             case recent of
               [c] \<Rightarrow> (Some c, write_line (RouterHeartbeat (projectName c)) s1)
             | _ \<Rightarrow>
                if length recent > 1 then
                  (None, write_line (RouterConflict (length recent) (map projectName recent)) s1)
                else
                  (None, write_line
                     (RouterTimeout (map projectName (Map_values (subscribers s)))) s1))))"

text \<open>
  The forwarding step of \<^verbatim>\<open>handleBrowserConnection\<close> for one inbound event whose
  payload is \<open>data\<close>: select a target and send the wrapped payload to it if its transport
  is open.
\<close>

definition forward_element :: "string \<Rightarrow> string option \<Rightarrow> int \<Rightarrow> relay \<Rightarrow> relay" where
  "forward_element data detectActiveTTY now s =
     (case selectTargetClient detectActiveTTY now s of
        (Some target, s') \<Rightarrow>
          if readyState s' (ws target) = 1 then
            write_line (McpForwarded (projectName target))
              (s'\<lparr>sent := sent s' @ [(ws target, data)]\<rparr>)
          else s'
      | (None, s') \<Rightarrow> s')"

text \<open>Whether an event is a parsed register message arriving on connection \<open>w\<close>.\<close>

fun is_register :: "parsed \<Rightarrow> bool" where
  "is_register (JsonObject p) = (p_type p = Some ''register'')"
| "is_register ParseError = False"
| "is_register JsonNull = False"

fun registers_on :: "ws_id \<Rightarrow> sub_event \<Rightarrow> bool" where
  "registers_on w (Message w' m now) = (w' = w \<and> is_register m)"
| "registers_on w (Close w') = False"

subsection \<open>createServer and main: port selection at startup\<close>

text \<open>
  An error raised while listening carries a \<^verbatim>\<open>code\<close>. \<open>tryPort\<close> is the environment:
  for each port, whether \<^verbatim>\<open>new WebSocket.Server({ port })\<close> comes to listen (giving the
  server, named by a number) or fails with an error.
\<close>

datatype listen_error = Errno string

datatype startup_error = Listen listen_error | PortUnavailable

type_synonym server = nat

text \<open>
  The loop of \<^verbatim>\<open>createServer\<close>, from iteration \<open>attempt\<close> on. \<open>tried\<close> collects the
  ports passed to \<^verbatim>\<open>tryPort\<close>, in order.
\<close>

function createServer_loop ::
  "(int \<Rightarrow> listen_error + server) \<Rightarrow> int \<Rightarrow> nat \<Rightarrow> listen_error option \<Rightarrow> int list
     \<Rightarrow> (startup_error + server \<times> int) \<times> int list" where
  "createServer_loop tryPort port attempt lastError tried =
     (if attempt < 3 then
        (let currentPort = port + int attempt in
         case tryPort currentPort of
           Inr srv \<Rightarrow> (Inr (srv, currentPort), tried @ [currentPort])
         | Inl error \<Rightarrow>
             if error = Errno ''EADDRINUSE'' then
               createServer_loop tryPort port (attempt + 1) (Some error) (tried @ [currentPort])
             else (Inl (Listen error), tried @ [currentPort]))
      else
        (case lastError of
           Some e \<Rightarrow> (Inl (Listen e), tried)
         | None \<Rightarrow> (Inl PortUnavailable, tried)))"
  by pat_completeness auto
termination
  by (relation "measure (\<lambda>(tryPort, port, attempt, lastError, tried). 3 - attempt)") auto

definition createServer ::
  "(int \<Rightarrow> listen_error + server) \<Rightarrow> int
     \<Rightarrow> (startup_error + server \<times> int) \<times> int list" where
  "createServer tryPort port = createServer_loop tryPort port 0 None []"

definition SUBSCRIBER_PORT :: int where
  "SUBSCRIBER_PORT = 51766"

text \<open>
  \<^verbatim>\<open>main\<close> as started from the command line, with the handler of its rejection: the
  process either keeps running, serving the browser on the chosen port, or exits with a
  status. \<open>subscriberFails\<close> says whether constructing the subscriber server throws. The
  subscriber server listens on the fixed port 51766 and has no \<^verbatim>\<open>error\<close> listener: when
  that port cannot be bound, because the environment has it bound or because the browser
  server has just taken it, the unhandled \<^verbatim>\<open>error\<close> event ends the process with status 1.
\<close>

datatype process_state = Serving int | Exited int

definition main :: "(int \<Rightarrow> listen_error + server) \<Rightarrow> bool \<Rightarrow> int \<Rightarrow> process_state" where
  "main tryPort subscriberFails port =
     (case fst (createServer tryPort port) of
        Inl e \<Rightarrow> Exited 1
      | Inr (browserServer, browserPort) \<Rightarrow>
          if subscriberFails then Exited 1
          else if browserPort = SUBSCRIBER_PORT \<or> isl (tryPort SUBSCRIBER_PORT) then Exited 1
          else Serving browserPort)"

section \<open>Listener: connection lifecycle of the MCP server (src/bridge/mcp-server.mjs)\<close>

definition INITIAL_RECONNECT_DELAY :: int where
  "INITIAL_RECONNECT_DELAY = 1000"

definition MAX_RECONNECT_DELAY :: int where
  "MAX_RECONNECT_DELAY = 30000"

text \<open>
  The module's variables, and around them what the handlers act on: the WebSocket objects
  constructed so far (numbered from 0, each with its ready state: 0 connecting, 1 open,
  2 closing, 3 closed), the delays passed to \<^verbatim>\<open>setTimeout\<close> by \<^verbatim>\<open>scheduleReconnect\<close> in
  order, the number of those timers that have not fired yet, the messages sent, and the
  status of \<^verbatim>\<open>process.exit\<close> once called.
\<close>

record listener =
  wsConnection :: "nat option"
  sockets :: "nat \<Rightarrow> nat"
  wsCreated :: nat
  heartbeatTimer :: bool
  reconnectDelay :: int
  isShuttingDown :: bool
  setTimeouts :: "int list"
  pendingTimeouts :: nat
  wsSent :: "(nat \<times> string) list"
  exitCode :: "int option"

definition listener_init :: listener where
  "listener_init = \<lparr> wsConnection = None, sockets = (\<lambda>_. 3), wsCreated = 0,
     heartbeatTimer = False, reconnectDelay = INITIAL_RECONNECT_DELAY, isShuttingDown = False,
     setTimeouts = [], pendingTimeouts = 0, wsSent = [], exitCode = None \<rparr>"

definition sendToWs :: "string \<Rightarrow> listener \<Rightarrow> listener" where
  "sendToWs msg s =
     (case wsConnection s of
        Some i \<Rightarrow> if sockets s i = 1 then s\<lparr>wsSent := wsSent s @ [(i, msg)]\<rparr> else s
      | None \<Rightarrow> s)"

definition register :: "listener \<Rightarrow> listener" where
  "register s = sendToWs ''register'' s"

definition stopHeartbeat :: "listener \<Rightarrow> listener" where
  "stopHeartbeat s = (if heartbeatTimer s then s\<lparr>heartbeatTimer := False\<rparr> else s)"

definition startHeartbeat :: "listener \<Rightarrow> listener" where
  "startHeartbeat s = (stopHeartbeat s)\<lparr>heartbeatTimer := True\<rparr>"

text \<open>\<^verbatim>\<open>connectToBridge\<close>: its only guard is \<^verbatim>\<open>isShuttingDown\<close>.\<close>

definition connectToBridge :: "listener \<Rightarrow> listener" where
  "connectToBridge s =
     (if isShuttingDown s then s
      else s\<lparr> wsConnection := Some (wsCreated s),
              sockets := (sockets s)(wsCreated s := 0),
              wsCreated := wsCreated s + 1 \<rparr>)"

definition scheduleReconnect :: "listener \<Rightarrow> listener" where
  "scheduleReconnect s =
     (if isShuttingDown s then s
      else s\<lparr> setTimeouts := setTimeouts s @ [reconnectDelay s],
              pendingTimeouts := pendingTimeouts s + 1 \<rparr>)"

text \<open>The callback given to \<^verbatim>\<open>setTimeout\<close>, run when a pending reconnect timer fires.\<close>

definition reconnect_timer :: "listener \<Rightarrow> listener" where
  "reconnect_timer s =
     (if pendingTimeouts s = 0 then s
      else connectToBridge
             (s\<lparr> pendingTimeouts := pendingTimeouts s - 1,
                 reconnectDelay := min (reconnectDelay s * 2) MAX_RECONNECT_DELAY \<rparr>))"

text \<open>The \<^verbatim>\<open>open\<close> and \<^verbatim>\<open>close\<close> handlers installed by \<^verbatim>\<open>connectToBridge\<close> on socket \<open>i\<close>.\<close>

definition ws_open :: "nat \<Rightarrow> listener \<Rightarrow> listener" where
  "ws_open i s =
     startHeartbeat (register
       (s\<lparr> sockets := (sockets s)(i := 1), reconnectDelay := INITIAL_RECONNECT_DELAY \<rparr>))"

definition ws_close :: "nat \<Rightarrow> listener \<Rightarrow> listener" where
  "ws_close i s =
     (let s1 = s\<lparr>sockets := (sockets s)(i := 3)\<rparr> in
      if \<not> isShuttingDown s1 then scheduleReconnect (stopHeartbeat s1) else s1)"

definition heartbeat_tick :: "listener \<Rightarrow> listener" where
  "heartbeat_tick s = (if heartbeatTimer s then sendToWs ''heartbeat'' s else s)"

text \<open>
  \<^verbatim>\<open>shutdown\<close>; \<^verbatim>\<open>close()\<close> on a socket that is already closed leaves it closed, on any
  other it starts the closing handshake.
\<close>

definition shutdown :: "listener \<Rightarrow> listener" where
  "shutdown s =
     (if isShuttingDown s then s
      else
        (let s1 = stopHeartbeat (s\<lparr>isShuttingDown := True\<rparr>);
             s2 = (case wsConnection s1 of
                     Some i \<Rightarrow>
                       s1\<lparr> sockets := (sockets s1)(i := if sockets s1 i = 3 then 3 else 2),
                           wsConnection := None \<rparr>
                   | None \<Rightarrow> s1)
         in s2\<lparr>exitCode := Some 0\<rparr>))"

text \<open>Events of the listener process; nothing runs once the process has exited.\<close>

datatype listener_event =
  ConnectToBridge | WsOpen nat | WsClose nat | ReconnectTimer | HeartbeatTick | Shutdown

fun listener_handler :: "listener_event \<Rightarrow> listener \<Rightarrow> listener" where
  "listener_handler ConnectToBridge s = connectToBridge s"
| "listener_handler (WsOpen i) s = ws_open i s"
| "listener_handler (WsClose i) s = ws_close i s"
| "listener_handler ReconnectTimer s = reconnect_timer s"
| "listener_handler HeartbeatTick s = heartbeat_tick s"
| "listener_handler Shutdown s = shutdown s"

definition listener_step :: "listener_event \<Rightarrow> listener \<Rightarrow> listener" where
  "listener_step e s = (if exitCode s \<noteq> None then s else listener_handler e s)"

fun listener_run :: "listener_event list \<Rightarrow> listener \<Rightarrow> listener" where
  "listener_run [] s = s"
| "listener_run (e # es) s = listener_run es (listener_step e s)"

text \<open>
  \<open>n\<close> connection attempts failing in a row: the socket of the current attempt closes
  without having opened, and the reconnect timer then fires, starting the next attempt.
\<close>

fun failed_attempts :: "nat \<Rightarrow> listener_event list" where
  "failed_attempts 0 = []"
| "failed_attempts (Suc n) = failed_attempts n @ [WsClose n, ReconnectTimer]"

text \<open>The phase the listener is in, read off the socket held in \<^verbatim>\<open>wsConnection\<close>.\<close>

datatype phase = DISCONNECTED | CONNECTING | CONNECTED

definition listener_phase :: "listener \<Rightarrow> phase" where
  "listener_phase s =
     (case wsConnection s of
        None \<Rightarrow> DISCONNECTED
      | Some i \<Rightarrow> if sockets s i = 0 then CONNECTING
                  else if sockets s i = 1 then CONNECTED else DISCONNECTED)"

section \<open>Producer: the userscript's Transport module\<close>

definition MAX_RETRIES :: nat where
  "MAX_RETRIES = 5"

definition RETRY_INTERVAL :: int where
  "RETRY_INTERVAL = 3000"

text \<open>
  The fields of \<^verbatim>\<open>Transport\<close> and \<^verbatim>\<open>State.connectionState\<close>, and around them what the
  methods act on: the number of WebSocket objects constructed, the sockets on which
  \<^verbatim>\<open>close()\<close> was called, the delays passed to \<^verbatim>\<open>setTimeout\<close> in order (a timer's
  handle is its position in that list) and the handles of the timers still pending.
\<close>

record transport =
  connectionState :: phase
  t_ws :: "nat option"
  reconnectAttempts :: nat
  reconnectTimer :: "nat option"
  isManualClose :: bool
  isReconnecting :: bool
  t_wsCreated :: nat
  closeCalls :: "nat list"
  t_setTimeouts :: "int list"
  pendingTimers :: "nat list"

definition transport_init :: transport where
  "transport_init = \<lparr> connectionState = DISCONNECTED, t_ws = None, reconnectAttempts = 0,
     reconnectTimer = None, isManualClose = False, isReconnecting = False, t_wsCreated = 0,
     closeCalls = [], t_setTimeouts = [], pendingTimers = [] \<rparr>"

definition Transport_setState :: "phase \<Rightarrow> transport \<Rightarrow> transport" where
  "Transport_setState nextState s =
     (if connectionState s = nextState then s else s\<lparr>connectionState := nextState\<rparr>)"

text \<open>\<^verbatim>\<open>if (this.reconnectTimer) { clearTimeout(this.reconnectTimer); this.reconnectTimer = null; }\<close>\<close>

definition clear_reconnectTimer :: "transport \<Rightarrow> transport" where
  "clear_reconnectTimer s =
     (case reconnectTimer s of
        Some h \<Rightarrow> s\<lparr>pendingTimers := removeAll h (pendingTimers s), reconnectTimer := None\<rparr>
      | None \<Rightarrow> s)"

definition Transport_resetReconnect :: "transport \<Rightarrow> transport" where
  "Transport_resetReconnect s =
     clear_reconnectTimer (s\<lparr>reconnectAttempts := 0, isReconnecting := False\<rparr>)"

definition Transport_scheduleReconnect :: "transport \<Rightarrow> transport" where
  "Transport_scheduleReconnect s =
     (if reconnectAttempts s \<ge> MAX_RETRIES then s
      else
        (let s1 = clear_reconnectTimer s;
             delay = RETRY_INTERVAL * 2 ^ reconnectAttempts s1;
             h = length (t_setTimeouts s1)
         in s1\<lparr> reconnectAttempts := reconnectAttempts s1 + 1,
                 reconnectTimer := Some h,
                 t_setTimeouts := t_setTimeouts s1 @ [delay],
                 pendingTimers := pendingTimers s1 @ [h] \<rparr>))"

text \<open>\<^verbatim>\<open>connect()\<close>; \<open>throws\<close> says whether \<^verbatim>\<open>new WebSocket(url)\<close> raises.\<close>

definition Transport_connect :: "bool \<Rightarrow> transport \<Rightarrow> transport" where
  "Transport_connect throws s =
     (if connectionState s \<noteq> DISCONNECTED then s
      else
        (let s1 = Transport_setState CONNECTING (s\<lparr>isManualClose := False\<rparr>) in
         if throws then Transport_scheduleReconnect (Transport_setState DISCONNECTED s1)
         else s1\<lparr>t_ws := Some (t_wsCreated s1), t_wsCreated := t_wsCreated s1 + 1\<rparr>))"

text \<open>The listeners that \<^verbatim>\<open>connect()\<close> adds to the socket.\<close>

definition Transport_on_open :: "transport \<Rightarrow> transport" where
  "Transport_on_open s = Transport_resetReconnect (Transport_setState CONNECTED s)"

definition Transport_on_close :: "transport \<Rightarrow> transport" where
  "Transport_on_close s =
     (let s1 = Transport_setState DISCONNECTED (s\<lparr>t_ws := None\<rparr>) in
      if \<not> isManualClose s1 \<and> \<not> isReconnecting s1 then
        Transport_scheduleReconnect (s1\<lparr>isReconnecting := True\<rparr>)
      else s1)"

definition Transport_on_error :: "transport \<Rightarrow> transport" where
  "Transport_on_error s =
     (case t_ws s of Some i \<Rightarrow> s\<lparr>closeCalls := closeCalls s @ [i]\<rparr> | None \<Rightarrow> s)"

definition Transport_disconnect :: "transport \<Rightarrow> transport" where
  "Transport_disconnect s =
     (let s1 = clear_reconnectTimer (s\<lparr>isManualClose := True\<rparr>);
          s2 = (case t_ws s1 of
                  Some i \<Rightarrow> s1\<lparr>closeCalls := closeCalls s1 @ [i], t_ws := None\<rparr>
                | None \<Rightarrow> s1)
      in Transport_setState DISCONNECTED s2)"

text \<open>The callback of the reconnect timer with handle \<open>h\<close>; only a pending timer fires.\<close>

definition Transport_timer :: "nat \<Rightarrow> bool \<Rightarrow> transport \<Rightarrow> transport" where
  "Transport_timer h throws s =
     (if h \<in> set (pendingTimers s) then
        Transport_connect throws (s\<lparr>pendingTimers := removeAll h (pendingTimers s)\<rparr>)
      else s)"

datatype transport_event =
  Connect bool | Disconnect | SocketOpen | SocketClose | SocketError | TimerFires nat bool

fun transport_step :: "transport_event \<Rightarrow> transport \<Rightarrow> transport" where
  "transport_step (Connect throws) s = Transport_connect throws s"
| "transport_step Disconnect s = Transport_disconnect s"
| "transport_step SocketOpen s = Transport_on_open s"
| "transport_step SocketClose s = Transport_on_close s"
| "transport_step SocketError s = Transport_on_error s"
| "transport_step (TimerFires h throws) s = Transport_timer h throws s"

fun transport_run :: "transport_event list \<Rightarrow> transport \<Rightarrow> transport" where
  "transport_run [] s = s"
| "transport_run (e # es) s = transport_run es (transport_step e s)"

fun is_Connect :: "transport_event \<Rightarrow> bool" where
  "is_Connect (Connect throws) = True"
| "is_Connect e = False"

text \<open>
  \<open>n\<close> connection attempts failing in a row because the WebSocket constructor raises: the
  first attempt is a call of \<^verbatim>\<open>connect()\<close>, each later one is made by the reconnect timer
  that the attempt before it scheduled (timer \<open>k\<close> is the one scheduled by attempt \<open>k\<close>).
\<close>

fun failed_constructions :: "nat \<Rightarrow> transport_event list" where
  "failed_constructions 0 = []"
| "failed_constructions (Suc n) =
     failed_constructions n @ [if n = 0 then Connect True else TimerFires (n - 1) True]"

text \<open>Every pending timer is the one whose handle \<^verbatim>\<open>reconnectTimer\<close> holds.\<close>

definition timers_tracked :: "transport \<Rightarrow> bool" where
  "timers_tracked s = list_all (\<lambda>h. reconnectTimer s = Some h) (pendingTimers s)"

text \<open>The state that \<open>n\<close> such failures in a row lead to from the initial state.\<close>

definition after_failures :: "nat \<Rightarrow> transport" where
  "after_failures n =
     (if n = 0 then transport_init
      else transport_init\<lparr> reconnectAttempts := min n MAX_RETRIES,
             reconnectTimer := Some (min n MAX_RETRIES - 1),
             t_setTimeouts := map (\<lambda>k. RETRY_INTERVAL * 2 ^ k) [0..<min n MAX_RETRIES],
             pendingTimers := (if n \<le> MAX_RETRIES then [n - 1] else []) \<rparr>)"

subsection \<open>Example inputs\<close>

text \<open>The register message the listener sends, with client id \<^verbatim>\<open>c1\<close>.\<close>

definition reg_c1 :: payload where
  "reg_c1 = \<lparr> p_type = Some ''register'', p_clientId = JStr ''c1'',
     p_projectPath = Some ''/home/u/app'', p_projectName = Some ''app'',
     p_tty = Some ''mcp-server'', p_pid = Some 4242 \<rparr>"

text \<open>
  Two registered listeners: \<open>client_a\<close> last heard at 9000 ms and \<open>client_b\<close> at 5000 ms,
  so that at 10000 ms the first is 1 s old and the second 5 s.
\<close>

definition client_a :: client where
  "client_a = \<lparr> ws = 1, projectPath = ''/home/u/alpha'', projectName = ''alpha'',
     tty = ''mcp-server'', pid = 11, lastHeartbeat = 9000 \<rparr>"

definition client_b :: client where
  "client_b = \<lparr> ws = 2, projectPath = ''/home/u/beta'', projectName = ''beta'',
     tty = ''mcp-server'', pid = 12, lastHeartbeat = 5000 \<rparr>"

definition two_listeners :: relay where
  "two_listeners = relay_init\<lparr>subscribers := [(JStr ''a'', client_a), (JStr ''b'', client_b)]\<rparr>"

definition one_listener :: relay where
  "one_listener = relay_init\<lparr>subscribers := [(JStr ''b'', client_b)]\<rparr>"

text \<open>A heartbeat message of client \<^verbatim>\<open>b\<close>.\<close>

definition heartbeat_b :: payload where
  "heartbeat_b = \<lparr> p_type = Some ''heartbeat'', p_clientId = JStr ''b'', p_projectPath = None,
     p_projectName = None, p_tty = None, p_pid = None \<rparr>"

text \<open>Two environments for startup: every port bound, and only port 51765 bound.\<close>

definition all_bound :: "int \<Rightarrow> listen_error + server" where
  "all_bound p = Inl (Errno ''EADDRINUSE'')"

definition first_bound :: "int \<Rightarrow> listen_error + server" where
  "first_bound p = (if p = 51765 then Inl (Errno ''EADDRINUSE'') else Inr 7)"

section \<open>Properties of the registry\<close>

lemma Map_has_iff: "Map_has m k \<longleftrightarrow> k \<in> set (map fst m)"
  by (induction m) (auto split: if_splits)

lemma Map_get_None_iff: "Map_get m k = None \<longleftrightarrow> k \<notin> set (map fst m)"
  by (induction m) (auto split: if_splits)

lemma keys_Map_set: "set (map fst (Map_set m k v)) = insert k (set (map fst m))"
proof (induction m)
  case Nil then show ?case by simp
next
  case (Cons a m)
  obtain k' v' where a: "a = (k', v')" by (cases a)
  show ?case using Cons.IH a by (cases "k' = k") auto
qed

lemma keys_Map_delete_subset: "set (map fst (Map_delete m k)) \<subseteq> set (map fst m)"
proof (induction m)
  case Nil then show ?case by simp
next
  case (Cons a m)
  obtain k' v' where a: "a = (k', v')" by (cases a)
  show ?case using Cons.IH a by (cases "k' = k") auto
qed

lemma distinct_Map_set: "distinct (map fst m) \<Longrightarrow> distinct (map fst (Map_set m k v))"
proof (induction m)
  case Nil then show ?case by simp
next
  case (Cons a m)
  obtain k' v' where a: "a = (k', v')" by (cases a)
  show ?case
  proof (cases "k' = k")
    case True with Cons.prems a show ?thesis by simp
  next
    case False
    have "k' \<notin> set (map fst (Map_set m k v))"
      using Cons.prems a False unfolding keys_Map_set by simp
    with Cons a False show ?thesis by simp
  qed
qed

lemma distinct_Map_delete: "distinct (map fst m) \<Longrightarrow> distinct (map fst (Map_delete m k))"
proof (induction m)
  case Nil then show ?case by simp
next
  case (Cons a m)
  obtain k' v' where a: "a = (k', v')" by (cases a)
  have "k' \<notin> set (map fst (Map_delete m k))"
    using Cons.prems a keys_Map_delete_subset[of m k] by auto
  with Cons a show ?case by simp
qed

lemma Map_get_Map_set_same: "Map_get (Map_set m k v) k = Some v"
  by (induction m) auto

lemma Map_get_Map_set_other: "k' \<noteq> k \<Longrightarrow> Map_get (Map_set m k v) k' = Map_get m k'"
  by (induction m) auto

lemma length_Map_set: "length (Map_set m k v) = (if Map_has m k then length m else Suc (length m))"
  by (induction m) (auto split: if_splits)

lemma records_for_absent: "k \<notin> set (map fst m) \<Longrightarrow> records_for m k = 0"
  by (induction m) (auto simp: records_for_def)

lemma records_for_Cons: "records_for ((k', v') # m) k = (if k' = k then Suc (records_for m k) else records_for m k)"
  by (simp add: records_for_def)

lemma records_for_distinct: "distinct (map fst m) \<Longrightarrow> records_for m k \<le> 1"
proof (induction m)
  case Nil then show ?case by (simp add: records_for_def)
next
  case (Cons a m)
  obtain k' v' where a: "a = (k', v')" by (cases a)
  show ?case
  proof (cases "k' = k")
    case True
    then have "k \<notin> set (map fst m)" using Cons.prems a by simp
    then show ?thesis using a True by (simp add: records_for_Cons records_for_absent)
  next
    case False with Cons a show ?thesis by (simp add: records_for_Cons)
  qed
qed

lemma records_for_Map_set: "distinct (map fst m) \<Longrightarrow> records_for (Map_set m k v) k = 1"
proof (induction m)
  case Nil then show ?case by (simp add: records_for_def)
next
  case (Cons a m)
  obtain k' v' where a: "a = (k', v')" by (cases a)
  show ?case
  proof (cases "k' = k")
    case True
    then have "k \<notin> set (map fst m)" using Cons.prems a by simp
    then show ?thesis using a True by (simp add: records_for_Cons records_for_absent)
  next
    case False with Cons a show ?thesis by (simp add: records_for_Cons)
  qed
qed

lemma subscribers_write_line: "subscribers (write_line l s) = subscribers s"
  by (simp add: write_line_def)

lemma clientId_write_line: "clientId (write_line l s) = clientId s"
  by (simp add: write_line_def)

lemma distinct_handle_register:
  "distinct (map fst (subscribers s)) \<Longrightarrow> distinct (map fst (subscribers (handle_register w p now s)))"
  by (simp add: handle_register_def subscribers_write_line distinct_Map_set)

lemma distinct_handle_heartbeat:
  "distinct (map fst (subscribers s)) \<Longrightarrow> distinct (map fst (subscribers (handle_heartbeat p now s)))"
  by (simp add: handle_heartbeat_def distinct_Map_set split: option.splits)

lemma distinct_on_close:
  "distinct (map fst (subscribers s)) \<Longrightarrow> distinct (map fst (subscribers (on_close w s)))"
  by (simp add: on_close_def subscribers_write_line distinct_Map_delete split: option.splits)

lemma distinct_step:
  assumes "distinct (map fst (subscribers s))" and "step e s = Inr s'"
  shows "distinct (map fst (subscribers s'))"
proof (cases e)
  case (Message w m now)
  show ?thesis
  proof (cases m)
    case ParseError
    with Message assms show ?thesis by (auto simp: subscribers_write_line)
  next
    case JsonNull
    with Message assms show ?thesis by simp
  next
    case (JsonObject p)
    with Message assms show ?thesis
      by (auto intro: distinct_handle_heartbeat distinct_handle_register)
  qed
next
  case (Close w)
  with assms show ?thesis by (auto intro: distinct_on_close)
qed

lemma distinct_run:
  "distinct (map fst (subscribers s)) \<Longrightarrow> run es s = Inr s' \<Longrightarrow> distinct (map fst (subscribers s'))"
proof (induction es arbitrary: s)
  case Nil then show ?case by simp
next
  case (Cons e es)
  then obtain s1 where s1: "step e s = Inr s1" and r: "run es s1 = Inr s'"
    by (auto split: sum.splits)
  from Cons.prems(1) s1 have "distinct (map fst (subscribers s1))" by (rule distinct_step)
  then show ?case using r by (rule Cons.IH)
qed

lemma register_effect:
  assumes "p_type p = Some ''register''"
  shows "subscribers (handle_heartbeat p now (handle_register w p now s)) =
           Map_set (subscribers s) (p_clientId p) (register_client w p now)"
  using assms by (simp add: handle_heartbeat_def handle_register_def subscribers_write_line)

text \<open>
  Claim C1. After every run of subscriber-port events (register and heartbeat messages,
  unparseable messages, transport closes) from the empty registry, no client id has more
  than one record; and a register message handled in such a state leaves exactly one
  record for its client id, namely the one just registered, touching no other id and
  growing the table only if the id was absent.
\<close>

theorem registry_unique_last_write_wins:
  assumes "run evs relay_init = Inr s"
  shows "(\<forall>k. records_for (subscribers s) k \<le> 1) \<and>
         (\<forall>w p now. p_type p = Some ''register'' \<longrightarrow>
            (\<exists>s'. on_message w (JsonObject p) now s = Inr s' \<and>
              (\<forall>k. records_for (subscribers s') k \<le> 1) \<and>
              records_for (subscribers s') (p_clientId p) = 1 \<and>
              Map_get (subscribers s') (p_clientId p) = Some (register_client w p now) \<and>
              (\<forall>k. k \<noteq> p_clientId p \<longrightarrow> Map_get (subscribers s') k = Map_get (subscribers s) k) \<and>
              Map_size (subscribers s') =
                (if Map_has (subscribers s) (p_clientId p) then Map_size (subscribers s)
                 else Map_size (subscribers s) + 1)))"
proof -
  have "distinct (map fst (subscribers relay_init))" by (simp add: relay_init_def)
  then have d: "distinct (map fst (subscribers s))" using assms by (rule distinct_run)
  have one: "\<forall>k. records_for (subscribers s) k \<le> 1" using d by (intro allI records_for_distinct)
  have reg: "\<exists>s'. on_message w (JsonObject p) now s = Inr s' \<and>
              (\<forall>k. records_for (subscribers s') k \<le> 1) \<and>
              records_for (subscribers s') (p_clientId p) = 1 \<and>
              Map_get (subscribers s') (p_clientId p) = Some (register_client w p now) \<and>
              (\<forall>k. k \<noteq> p_clientId p \<longrightarrow> Map_get (subscribers s') k = Map_get (subscribers s) k) \<and>
              Map_size (subscribers s') =
                (if Map_has (subscribers s) (p_clientId p) then Map_size (subscribers s)
                 else Map_size (subscribers s) + 1)"
    if t: "p_type p = Some ''register''" for w p now
  proof -
    let ?s' = "handle_heartbeat p now (handle_register w p now s)"
    have e: "subscribers ?s' = Map_set (subscribers s) (p_clientId p) (register_client w p now)"
      using t by (rule register_effect)
    have "distinct (map fst (subscribers ?s'))" unfolding e using d by (rule distinct_Map_set)
    then have a: "\<forall>k. records_for (subscribers ?s') k \<le> 1" by (intro allI records_for_distinct)
    have b: "records_for (subscribers ?s') (p_clientId p) = 1"
      unfolding e using d by (rule records_for_Map_set)
    have c: "Map_get (subscribers ?s') (p_clientId p) = Some (register_client w p now)"
      unfolding e by (rule Map_get_Map_set_same)
    have f: "\<forall>k. k \<noteq> p_clientId p \<longrightarrow> Map_get (subscribers ?s') k = Map_get (subscribers s) k"
      unfolding e by (simp add: Map_get_Map_set_other)
    have g: "Map_size (subscribers ?s') =
                (if Map_has (subscribers s) (p_clientId p) then Map_size (subscribers s)
                 else Map_size (subscribers s) + 1)"
      unfolding e by (simp add: Map_size_def length_Map_set)
    have "on_message w (JsonObject p) now s = Inr ?s'" by simp
    with a b c f g show ?thesis by blast
  qed
  from one reg show ?thesis by blast
qed


theorem registry_unique_last_write_wins_witness:
  "\<exists>s. run [Message 1 (JsonObject reg_c1) 100, Close 1, Message 2 (JsonObject reg_c1) 200]
          relay_init = Inr s \<and>
       p_type reg_c1 = Some ''register'' \<and>
       records_for (subscribers s) (JStr ''c1'') \<le> 1 \<and>
       (\<exists>s'. on_message 3 (JsonObject reg_c1) 300 s = Inr s' \<and>
          records_for (subscribers s') (JStr ''c1'') = 1 \<and>
          Map_get (subscribers s') (JStr ''c1'') = Some (register_client 3 reg_c1 300))"
proof -
  obtain s where
    r: "run [Message 1 (JsonObject reg_c1) 100, Close 1, Message 2 (JsonObject reg_c1) 200]
          relay_init = Inr s"
    by simp
  have t: "p_type reg_c1 = Some ''register''" and i: "p_clientId reg_c1 = JStr ''c1''"
    by (simp_all add: reg_c1_def)
  from registry_unique_last_write_wins [OF r] t i r show ?thesis
    by metis
qed

subsection \<open>Closing a connection that never registered\<close>

lemma clientId_step_other:
  assumes "step e s = Inr s'" and "\<not> registers_on w e"
  shows "clientId s' w = clientId s w"
proof (cases e)
  case (Message w' m now)
  show ?thesis
  proof (cases m)
    case ParseError
    with Message assms show ?thesis by (auto simp: write_line_def)
  next
    case JsonNull
    with Message assms show ?thesis by simp
  next
    case (JsonObject p)
    with Message assms show ?thesis
      by (auto simp: handle_heartbeat_def handle_register_def write_line_def split: option.splits)
  qed
next
  case (Close w')
  with assms show ?thesis by (auto simp: on_close_def write_line_def split: option.splits)
qed

lemma clientId_run_other:
  "run es s = Inr s' \<Longrightarrow> \<forall>e\<in>set es. \<not> registers_on w e \<Longrightarrow> clientId s' w = clientId s w"
proof (induction es arbitrary: s)
  case Nil then show ?case by simp
next
  case (Cons e es)
  then obtain s1 where s1: "step e s = Inr s1" and r: "run es s1 = Inr s'"
    by (auto split: sum.splits)
  have "clientId s1 w = clientId s w" using s1 Cons.prems(2) by (auto intro: clientId_step_other)
  moreover have "clientId s' w = clientId s1 w" using r Cons.prems(2) by (auto intro: Cons.IH)
  ultimately show ?case by simp
qed

text \<open>
  Claim C10. Take any run of subscriber-port events from the initial relay in which no
  parsed register message arrives on connection \<open>w\<close>. Then the connection's \<^verbatim>\<open>clientId\<close>
  is still \<^verbatim>\<open>null\<close>, and its close handler returns normally with the whole relay state, the
  subscriber registry included, unchanged.
\<close>

theorem close_without_register_keeps_registry:
  assumes "run evs relay_init = Inr s" and "\<forall>e\<in>set evs. \<not> registers_on w e"
  shows "clientId s w = JNull \<and> step (Close w) s = Inr s \<and>
         subscribers (on_close w s) = subscribers s"
proof -
  have "clientId s w = clientId relay_init w" using assms by (rule clientId_run_other)
  then have n: "clientId s w = JNull" by (simp add: relay_init_def)
  then have "on_close w s = s" by (simp add: on_close_def)
  with n show ?thesis by simp
qed

theorem close_without_register_keeps_registry_witness:
  "\<exists>s. run [Message 1 (JsonObject reg_c1) 100, Message 2 ParseError 150,
            Message 2 (JsonObject (reg_c1\<lparr>p_type := Some ''heartbeat''\<rparr>)) 200] relay_init = Inr s \<and>
       clientId s 2 = JNull \<and> step (Close 2) s = Inr s \<and> Map_size (subscribers s) = 1"
proof -
  let ?evs = "[Message 1 (JsonObject reg_c1) 100, Message 2 ParseError 150,
            Message 2 (JsonObject (reg_c1\<lparr>p_type := Some ''heartbeat''\<rparr>)) 200]"
  obtain s where r: "run ?evs relay_init = Inr s" by simp
  have h: "\<forall>e\<in>set ?evs. \<not> registers_on 2 e" by (simp add: reg_c1_def)
  have sz: "Map_size (subscribers s) = 1"
    using r by (auto simp: relay_init_def reg_c1_def handle_register_def handle_heartbeat_def
        write_line_def Map_size_def)
  from close_without_register_keeps_registry [OF r h] r sz show ?thesis by blast
qed

subsection \<open>Re-registration followed by the old transport's close\<close>

text \<open>
  Claim C2. A listener registers as \<^verbatim>\<open>c1\<close> on transport 1 and again as \<^verbatim>\<open>c1\<close> on
  transport 2. The registry then holds exactly one record for \<^verbatim>\<open>c1\<close>, bound to transport 2,
  as the claim says. When transport 1 closes afterwards, its handler still holds the id
  \<^verbatim>\<open>c1\<close> and deletes that record, although it belongs to transport 2: the registry is
  empty, which the claim says must not happen.
\<close>

theorem stale_close_removes_newer_registration:
  "(case run [Message 1 (JsonObject reg_c1) 100, Message 2 (JsonObject reg_c1) 200] relay_init of
      Inr s \<Rightarrow> map (\<lambda>kv. (fst kv, ws (snd kv))) (subscribers s) = [(JStr ''c1'', 2)] \<and>
               subscribers (on_close 1 s) = []
    | Inl e \<Rightarrow> False)"
  by (simp add: relay_init_def reg_c1_def handle_register_def handle_heartbeat_def write_line_def
      register_client_def on_close_def)

section \<open>Properties of the arbitrator\<close>

text \<open>
  Claim C3. When the registry holds exactly one record, \<^verbatim>\<open>selectTargetClient\<close> returns
  that record, whatever the record's heartbeat, the time and the result the focus probe
  would give; the probe is not called (the count of probes is unchanged).
\<close>

theorem single_listener_selected:
  assumes "Map_size (subscribers s) = 1"
  shows "\<exists>k c. subscribers s = [(k, c)] \<and>
           selectTargetClient probe now s = (Some c, write_line (RouterDirect (projectName c)) s) \<and>
           probes (snd (selectTargetClient probe now s)) = probes s"
proof -
  from assms obtain k c where kc: "subscribers s = [(k, c)]"
    by (cases "subscribers s") (auto simp: Map_size_def)
  then have "selectTargetClient probe now s = (Some c, write_line (RouterDirect (projectName c)) s)"
    by (simp add: selectTargetClient_def Map_size_def Map_values_def)
  with kc show ?thesis by (simp add: write_line_def)
qed

theorem single_listener_selected_witness:
  "Map_size (subscribers one_listener) = 1 \<and>
   \<not> 10000 - lastHeartbeat client_b < 3000 \<and>
   selectTargetClient None 10000 one_listener =
     (Some client_b, write_line (RouterDirect ''beta'') one_listener) \<and>
   probes (snd (selectTargetClient None 10000 one_listener)) = 0"
proof -
  have h: "Map_size (subscribers one_listener) = 1"
    by (simp add: one_listener_def relay_init_def Map_size_def)
  have e: "subscribers one_listener = [(JStr ''b'', client_b)]" "probes one_listener = 0"
    by (simp_all add: one_listener_def relay_init_def)
  have n: "projectName client_b = ''beta''" "\<not> 10000 - lastHeartbeat client_b < 3000"
    by (simp_all add: client_b_def)
  from single_listener_selected [OF h, of None 10000] e n h show ?thesis by auto
qed

subsection \<open>Substring test and the focus strategy\<close>

lemma startsWith_iff: "startsWith hay needle \<longleftrightarrow> (\<exists>post. hay = needle @ post)"
  by (induction hay needle rule: startsWith.induct) auto

lemma String_includes_iff: "String_includes hay needle \<longleftrightarrow> (\<exists>pre post. hay = pre @ needle @ post)"
proof (induction hay)
  case Nil then show ?case by auto
next
  case (Cons h hs)
  show ?case
  proof
    assume "String_includes (h # hs) needle"
    then consider "startsWith (h # hs) needle" | "String_includes hs needle" by auto
    then show "\<exists>pre post. h # hs = pre @ needle @ post"
    proof cases
      case 1
      then obtain post where "h # hs = needle @ post" by (auto simp: startsWith_iff)
      then have "h # hs = [] @ needle @ post" by simp
      then show ?thesis by blast
    next
      case 2
      then obtain pre post where "hs = pre @ needle @ post" using Cons.IH by blast
      then have "h # hs = (h # pre) @ needle @ post" by simp
      then show ?thesis by blast
    qed
  next
    assume "\<exists>pre post. h # hs = pre @ needle @ post"
    then obtain pre post where e: "h # hs = pre @ needle @ post" by blast
    show "String_includes (h # hs) needle"
    proof (cases pre)
      case Nil
      with e have "startsWith (h # hs) needle" by (auto simp: startsWith_iff)
      then show ?thesis by simp
    next
      case (Cons a pre')
      with e have "hs = pre' @ needle @ post" by simp
      then have "String_includes hs needle" using Cons.IH by blast
      then show ?thesis by simp
    qed
  qed
qed

lemma focus_match_None:
  "\<forall>c\<in>set cs. \<not> (projectPath c \<noteq> [] \<and> String_includes t (projectPath c)) \<and>
               \<not> (tty c \<noteq> [] \<and> String_includes t (tty c))
   \<Longrightarrow> focus_match t cs = None"
  by (induction cs) auto

lemma focus_match_Some_member: "focus_match t cs = Some (c, l) \<Longrightarrow> c \<in> set cs"
  by (induction cs) (auto split: if_splits)

lemma Map_get_member: "distinct (map fst m) \<Longrightarrow> (k, v) \<in> set m \<Longrightarrow> Map_get m k = Some v"
proof (induction m)
  case Nil then show ?case by simp
next
  case (Cons a m)
  obtain k' v' where a: "a = (k', v')" by (cases a)
  show ?case
  proof (cases "k' = k")
    case True
    have "k \<notin> set (map fst m)" using Cons.prems(1) a True by simp
    then have "(k, v) \<notin> set m" by (metis fst_conv image_eqI set_map)
    with Cons.prems(2) a True show ?thesis by simp
  next
    case False
    with Cons a show ?thesis by simp
  qed
qed

lemma filter_values_unique:
  assumes "distinct (map fst m)" and "Map_get m k = Some c" and "P c"
      and "\<forall>k' c'. k' \<noteq> k \<longrightarrow> Map_get m k' = Some c' \<longrightarrow> \<not> P c'"
  shows "filter P (map snd m) = [c]"
  using assms
proof (induction m)
  case Nil then show ?case by simp
next
  case (Cons a m)
  obtain k0 v0 where a: "a = (k0, v0)" by (cases a)
  have d: "distinct (map fst m)" and nk: "k0 \<notin> set (map fst m)" using Cons.prems(1) a by simp_all
  show ?case
  proof (cases "k0 = k")
    case True
    then have v: "v0 = c" using Cons.prems(2) a by simp
    have "\<not> P v'" if "(k', v') \<in> set m" for k' v'
    proof -
      have "k' \<in> set (map fst m)" using that by (metis fst_conv image_eqI set_map)
      then have ne: "k' \<noteq> k" using nk True by auto
      have "Map_get m k' = Some v'" using d that by (rule Map_get_member)
      then have "Map_get (a # m) k' = Some v'" using a True ne by simp
      with Cons.prems(4) ne show ?thesis by blast
    qed
    then have "filter P (map snd m) = []" by (auto simp: filter_empty_conv)
    with a v Cons.prems(3) show ?thesis by simp
  next
    case False
    have "Map_get (a # m) k0 = Some v0" using a by simp
    then have np: "\<not> P v0" using Cons.prems(4) False by blast
    have g: "Map_get m k = Some c" using Cons.prems(2) a False by simp
    have o: "\<forall>k' c'. k' \<noteq> k \<longrightarrow> Map_get m k' = Some c' \<longrightarrow> \<not> P c'"
    proof (intro allI impI)
      fix k' c' assume ne: "k' \<noteq> k" and gm: "Map_get m k' = Some c'"
      have "Map_get m k0 = None" using nk by (simp only: Map_get_None_iff not_False_eq_True)
      then have "k' \<noteq> k0" using gm by auto
      then have "Map_get (a # m) k' = Some c'" using gm a by simp
      with Cons.prems(4) ne show "\<not> P c'" by blast
    qed
    have "filter P (map snd m) = [c]" using d g Cons.prems(3) o by (rule Cons.IH)
    with a np show ?thesis by simp
  qed
qed

text \<open>
  Claim C4. The registry holds at least two records (under distinct client ids, as a Map
  does). The focus probe gives \<^verbatim>\<open>null\<close>, an empty title, or a title in which no record's
  non-empty \<^verbatim>\<open>projectPath\<close> or \<^verbatim>\<open>tty\<close> occurs. The record under id \<open>k\<close> has a
  heartbeat less than 3000 ms old and no record under another id has. Then
  \<^verbatim>\<open>selectTargetClient\<close> returns the record under \<open>k\<close>, by the heartbeat strategy.
\<close>

theorem unique_fresh_listener_selected:
  assumes d: "distinct (map fst (subscribers s))"
      and two: "Map_size (subscribers s) \<ge> 2"
      and nomatch: "\<forall>t. detectActiveTTY = Some t \<longrightarrow> t = [] \<or>
             (\<forall>c'\<in>set (Map_values (subscribers s)).
                \<not> (projectPath c' \<noteq> [] \<and> String_includes t (projectPath c')) \<and>
                \<not> (tty c' \<noteq> [] \<and> String_includes t (tty c')))"
      and rec: "Map_get (subscribers s) k = Some c"
      and fr: "now - lastHeartbeat c < 3000"
      and others: "\<forall>k' c'. k' \<noteq> k \<longrightarrow> Map_get (subscribers s) k' = Some c' \<longrightarrow>
                     \<not> now - lastHeartbeat c' < 3000"
  shows "selectTargetClient detectActiveTTY now s =
           (Some c, write_line (RouterHeartbeat (projectName c)) (s\<lparr>probes := probes s + 1\<rparr>))"
proof -
  have f: "focus_strategy detectActiveTTY (Map_values (subscribers s)) = None"
  proof (cases detectActiveTTY)
    case None then show ?thesis by (simp add: focus_strategy_def)
  next
    case (Some t)
    show ?thesis
    proof (cases "t = []")
      case True with Some show ?thesis by (simp add: focus_strategy_def)
    next
      case False
      with nomatch Some have "focus_match t (Map_values (subscribers s)) = None"
        by (intro focus_match_None) blast
      with Some False show ?thesis by (simp add: focus_strategy_def)
    qed
  qed
  have r: "recentClients now (Map_values (subscribers s)) = [c]"
    unfolding recentClients_def Map_values_def
    using d rec fr others by (rule filter_values_unique)
  show ?thesis using two by (simp add: selectTargetClient_def f r Let_def)
qed

theorem unique_fresh_listener_selected_witness:
  "distinct (map fst (subscribers two_listeners)) \<and> Map_size (subscribers two_listeners) \<ge> 2 \<and>
   Map_get (subscribers two_listeners) (JStr ''a'') = Some client_a \<and>
   10000 - lastHeartbeat client_a < 3000 \<and>
   \<not> 10000 - lastHeartbeat client_b < 3000 \<and>
   fst (selectTargetClient (Some ''zsh'') 10000 two_listeners) = Some client_a"
proof -
  have d: "distinct (map fst (subscribers two_listeners))"
    by (simp add: two_listeners_def relay_init_def)
  have two: "Map_size (subscribers two_listeners) \<ge> 2"
    by (simp add: two_listeners_def relay_init_def Map_size_def)
  have nomatch: "\<forall>t. Some ''zsh'' = Some t \<longrightarrow> t = [] \<or>
             (\<forall>c'\<in>set (Map_values (subscribers two_listeners)).
                \<not> (projectPath c' \<noteq> [] \<and> String_includes t (projectPath c')) \<and>
                \<not> (tty c' \<noteq> [] \<and> String_includes t (tty c')))"
    by (simp add: two_listeners_def relay_init_def Map_values_def client_a_def client_b_def)
  have rec: "Map_get (subscribers two_listeners) (JStr ''a'') = Some client_a"
    by (simp add: two_listeners_def relay_init_def)
  have fr: "10000 - lastHeartbeat client_a < 3000" by (simp add: client_a_def)
  have st: "\<not> 10000 - lastHeartbeat client_b < 3000" by (simp add: client_b_def)
  have others: "\<forall>k' c'. k' \<noteq> JStr ''a'' \<longrightarrow> Map_get (subscribers two_listeners) k' = Some c' \<longrightarrow>
                     \<not> 10000 - lastHeartbeat c' < 3000"
    using st by (auto simp: two_listeners_def relay_init_def split: if_splits)
  from unique_fresh_listener_selected [OF d two nomatch rec fr others] d two rec fr st
  show ?thesis by simp
qed

subsection \<open>Declining\<close>

text \<open>
  Claim C5, as the code has it. Whenever \<^verbatim>\<open>selectTargetClient\<close> returns no target, the
  forwarding step sends nothing and returns normally, and then either the registry is
  empty or it holds at least two records, the focus strategy found none, and the number
  of fresh records is not one. With an empty registry nothing at all is written. With at
  least two fresh records and no focus match the conflict line is written; with at least
  two records, none fresh, and no focus match the timeout line is written.
\<close>

theorem decline_drops_event_and_reports:
  "(fst (selectTargetClient detectActiveTTY now s) = None \<longrightarrow>
      forward_element data detectActiveTTY now s = snd (selectTargetClient detectActiveTTY now s) \<and>
      sent (forward_element data detectActiveTTY now s) = sent s \<and>
      (Map_size (subscribers s) = 0 \<or>
       Map_size (subscribers s) \<ge> 2 \<and>
       focus_strategy detectActiveTTY (Map_values (subscribers s)) = None \<and>
       length (recentClients now (Map_values (subscribers s))) \<noteq> 1)) \<and>
   (Map_size (subscribers s) = 0 \<longrightarrow> selectTargetClient detectActiveTTY now s = (None, s)) \<and>
   (length (recentClients now (Map_values (subscribers s))) \<ge> 2 \<and>
    focus_strategy detectActiveTTY (Map_values (subscribers s)) = None \<longrightarrow>
      selectTargetClient detectActiveTTY now s =
        (None, write_line
           (RouterConflict (length (recentClients now (Map_values (subscribers s))))
              (map projectName (recentClients now (Map_values (subscribers s)))))
           (s\<lparr>probes := probes s + 1\<rparr>))) \<and>
   (Map_size (subscribers s) \<ge> 2 \<and>
    recentClients now (Map_values (subscribers s)) = [] \<and>
    focus_strategy detectActiveTTY (Map_values (subscribers s)) = None \<longrightarrow>
      selectTargetClient detectActiveTTY now s =
        (None, write_line (RouterTimeout (map projectName (Map_values (subscribers s))))
           (s\<lparr>probes := probes s + 1\<rparr>)))"
proof -
  let ?vals = "Map_values (subscribers s)"
  let ?sel = "selectTargetClient detectActiveTTY now s"
  have sent_sel: "sent (snd ?sel) = sent s"
    by (auto simp: selectTargetClient_def write_line_def Let_def
        split: list.splits option.splits prod.splits)
  have a: "fst ?sel = None \<longrightarrow>
      forward_element data detectActiveTTY now s = snd ?sel \<and>
      sent (forward_element data detectActiveTTY now s) = sent s \<and>
      (Map_size (subscribers s) = 0 \<or>
       Map_size (subscribers s) \<ge> 2 \<and> focus_strategy detectActiveTTY ?vals = None \<and>
       length (recentClients now ?vals) \<noteq> 1)"
  proof
    assume n: "fst ?sel = None"
    then have f: "forward_element data detectActiveTTY now s = snd ?sel"
      by (cases ?sel) (simp add: forward_element_def)
    have c: "Map_size (subscribers s) = 0 \<or>
       Map_size (subscribers s) \<ge> 2 \<and> focus_strategy detectActiveTTY ?vals = None \<and>
       length (recentClients now ?vals) \<noteq> 1"
    proof (cases "Map_size (subscribers s) \<ge> 2")
      case True
      with n show ?thesis
        by (auto simp: selectTargetClient_def Let_def
            split: list.splits option.splits prod.splits if_splits)
    next
      case False
      then consider "Map_size (subscribers s) = 0" | "Map_size (subscribers s) = 1" by linarith
      then show ?thesis
      proof cases
        case 1 then show ?thesis by simp
      next
        case 2
        then obtain kc where "subscribers s = [kc]"
          by (cases "subscribers s") (auto simp: Map_size_def)
        with n show ?thesis
          by (simp add: selectTargetClient_def Map_size_def Map_values_def)
      qed
    qed
    from f sent_sel c show "forward_element data detectActiveTTY now s = snd ?sel \<and>
      sent (forward_element data detectActiveTTY now s) = sent s \<and>
      (Map_size (subscribers s) = 0 \<or>
       Map_size (subscribers s) \<ge> 2 \<and> focus_strategy detectActiveTTY ?vals = None \<and>
       length (recentClients now ?vals) \<noteq> 1)" by simp
  qed
  have b: "Map_size (subscribers s) = 0 \<longrightarrow> ?sel = (None, s)"
    by (simp add: selectTargetClient_def)
  have len: "length (recentClients now ?vals) \<le> Map_size (subscribers s)"
    by (simp add: recentClients_def Map_values_def Map_size_def)
  have c: "length (recentClients now ?vals) \<ge> 2 \<and> focus_strategy detectActiveTTY ?vals = None \<longrightarrow>
      ?sel = (None, write_line
           (RouterConflict (length (recentClients now ?vals))
              (map projectName (recentClients now ?vals)))
           (s\<lparr>probes := probes s + 1\<rparr>))"
    using len by (auto simp: selectTargetClient_def Let_def split: list.splits)
  have d: "Map_size (subscribers s) \<ge> 2 \<and> recentClients now ?vals = [] \<and>
      focus_strategy detectActiveTTY ?vals = None \<longrightarrow>
      ?sel = (None, write_line (RouterTimeout (map projectName ?vals)) (s\<lparr>probes := probes s + 1\<rparr>))"
    by (auto simp: selectTargetClient_def Let_def)
  from a b c d show ?thesis by blast
qed

theorem decline_drops_event_and_reports_witness:
  "fst (selectTargetClient None 20000 two_listeners) = None \<and>
   Map_size (subscribers two_listeners) \<ge> 2 \<and>
   recentClients 20000 (Map_values (subscribers two_listeners)) = [] \<and>
   stdout (forward_element ''event'' None 20000 two_listeners) = [RouterTimeout [''alpha'', ''beta'']] \<and>
   sent (forward_element ''event'' None 20000 two_listeners) = [] \<and>
   length (recentClients 10000 (Map_values (subscribers (handle_heartbeat heartbeat_b 9800 two_listeners)))) \<ge> 2 \<and>
   stdout (forward_element ''event'' None 10000 (handle_heartbeat heartbeat_b 9800 two_listeners)) =
     [RouterConflict 2 [''alpha'', ''beta'']] \<and>
   sent (forward_element ''event'' None 10000 (handle_heartbeat heartbeat_b 9800 two_listeners)) = [] \<and>
   Map_size (subscribers relay_init) = 0 \<and>
   forward_element ''event'' None 10000 relay_init = relay_init"
proof -
  let ?hb = "handle_heartbeat heartbeat_b 9800 two_listeners"
  have subs: "subscribers two_listeners = [(JStr ''a'', client_a), (JStr ''b'', client_b)]"
    and quiet: "stdout two_listeners = []" "sent two_listeners = []"
    by (simp_all add: two_listeners_def relay_init_def)
  have subs_hb: "subscribers ?hb = [(JStr ''a'', client_a), (JStr ''b'', client_b\<lparr>lastHeartbeat := 9800\<rparr>)]"
    and quiet_hb: "stdout ?hb = []" "sent ?hb = []"
    by (simp_all add: handle_heartbeat_def heartbeat_b_def two_listeners_def relay_init_def)
  have names: "projectName client_a = ''alpha''" "projectName client_b = ''beta''"
    by (simp_all add: client_a_def client_b_def)
  have two: "Map_size (subscribers two_listeners) \<ge> 2" by (simp add: subs Map_size_def)
  have stale: "recentClients 20000 (Map_values (subscribers two_listeners)) = []"
    by (simp add: subs recentClients_def Map_values_def client_a_def client_b_def)
  have both: "recentClients 10000 (Map_values (subscribers ?hb)) = [client_a, client_b\<lparr>lastHeartbeat := 9800\<rparr>]"
    by (simp add: subs_hb recentClients_def Map_values_def client_a_def client_b_def)
  have foc: "focus_strategy None cs = None" for cs by (simp add: focus_strategy_def)
  have empty: "Map_size (subscribers relay_init) = 0" by (simp add: relay_init_def Map_size_def)
  note t = decline_drops_event_and_reports [of None 20000 two_listeners "''event''"]
  note c = decline_drops_event_and_reports [of None 10000 ?hb "''event''"]
  note z = decline_drops_event_and_reports [of None 10000 relay_init "''event''"]
  let ?rt = "recentClients 20000 (Map_values (subscribers two_listeners))"
  let ?rc = "recentClients 10000 (Map_values (subscribers ?hb))"
  have ht: "Map_size (subscribers two_listeners) \<ge> 2 \<and> ?rt = [] \<and>
      focus_strategy None (Map_values (subscribers two_listeners)) = None"
    using two stale foc by simp
  from t ht have t1: "selectTargetClient None 20000 two_listeners =
      (None, write_line (RouterTimeout (map projectName (Map_values (subscribers two_listeners))))
         (two_listeners\<lparr>probes := probes two_listeners + 1\<rparr>))"
    by blast
  then have tn: "fst (selectTargetClient None 20000 two_listeners) = None" by simp
  with t have t2: "forward_element ''event'' None 20000 two_listeners =
      snd (selectTargetClient None 20000 two_listeners)" by blast
  have t3: "stdout (forward_element ''event'' None 20000 two_listeners) = [RouterTimeout [''alpha'', ''beta'']]"
    and t4: "sent (forward_element ''event'' None 20000 two_listeners) = []"
    unfolding t2 t1 by (simp_all add: write_line_def quiet subs Map_values_def names)
  have hc: "length ?rc \<ge> 2 \<and> focus_strategy None (Map_values (subscribers ?hb)) = None"
    using foc by (simp add: both)
  from c hc have c1: "selectTargetClient None 10000 ?hb =
      (None, write_line (RouterConflict (length ?rc) (map projectName ?rc))
         (?hb\<lparr>probes := probes ?hb + 1\<rparr>))"
    by blast
  then have "fst (selectTargetClient None 10000 ?hb) = None" by simp
  with c have c2: "forward_element ''event'' None 10000 ?hb =
      snd (selectTargetClient None 10000 ?hb)" by blast
  have c3: "stdout (forward_element ''event'' None 10000 ?hb) = [RouterConflict 2 [''alpha'', ''beta'']]"
    and c4: "sent (forward_element ''event'' None 10000 ?hb) = []"
    unfolding c2 c1 by (simp_all add: write_line_def quiet_hb both names)
  from z empty have z1: "selectTargetClient None 10000 relay_init = (None, relay_init)" by blast
  then have "fst (selectTargetClient None 10000 relay_init) = None" by simp
  with z have "forward_element ''event'' None 10000 relay_init =
      snd (selectTargetClient None 10000 relay_init)" by blast
  with z1 have z2: "forward_element ''event'' None 10000 relay_init = relay_init" by simp
  from hc have c0: "length ?rc \<ge> 2" by blast
  from tn two stale t3 t4 c0 c3 c4 empty z2 show ?thesis by blast
qed

text \<open>
  Claim C5 as stated fails for the empty registry: no target is returned, nothing is
  sent, and no reason is written, neither by the arbitrator nor by the forwarding step.
\<close>

theorem empty_registry_emits_no_reason:
  "fst (selectTargetClient None 10000 relay_init) = None \<and>
   stdout (forward_element ''event'' None 10000 relay_init) = [] \<and>
   sent (forward_element ''event'' None 10000 relay_init) = []"
  by (simp add: selectTargetClient_def forward_element_def relay_init_def Map_size_def)

section \<open>Properties of startup\<close>

lemma createServer_unfold:
  "createServer tryPort port =
     (case tryPort port of
        Inr srv \<Rightarrow> (Inr (srv, port), [port])
      | Inl e0 \<Rightarrow>
          if e0 \<noteq> Errno ''EADDRINUSE'' then (Inl (Listen e0), [port])
          else
            (case tryPort (port + 1) of
               Inr srv \<Rightarrow> (Inr (srv, port + 1), [port, port + 1])
             | Inl e1 \<Rightarrow>
                 if e1 \<noteq> Errno ''EADDRINUSE'' then (Inl (Listen e1), [port, port + 1])
                 else
                   (case tryPort (port + 2) of
                      Inr srv \<Rightarrow> (Inr (srv, port + 2), [port, port + 1, port + 2])
                    | Inl e2 \<Rightarrow> (Inl (Listen e2), [port, port + 1, port + 2]))))"
proof -
  have l3: "createServer_loop tryPort port 3 (Some e) tried = (Inl (Listen e), tried)" for e tried
    by (subst createServer_loop.simps) simp
  have l2: "createServer_loop tryPort port 2 le tried =
      (case tryPort (port + 2) of
         Inr srv \<Rightarrow> (Inr (srv, port + 2), tried @ [port + 2])
       | Inl e2 \<Rightarrow> (Inl (Listen e2), tried @ [port + 2]))" for le tried
    by (subst createServer_loop.simps) (simp add: l3 Let_def split: sum.splits)
  have l1: "createServer_loop tryPort port 1 le tried =
      (case tryPort (port + 1) of
         Inr srv \<Rightarrow> (Inr (srv, port + 1), tried @ [port + 1])
       | Inl e1 \<Rightarrow>
           if e1 \<noteq> Errno ''EADDRINUSE'' then (Inl (Listen e1), tried @ [port + 1])
           else (case tryPort (port + 2) of
                   Inr srv \<Rightarrow> (Inr (srv, port + 2), tried @ [port + 1, port + 2])
                 | Inl e2 \<Rightarrow> (Inl (Listen e2), tried @ [port + 1, port + 2])))" for le tried
    by (subst createServer_loop.simps) (simp add: l2 Let_def split: sum.splits)
  show ?thesis
    unfolding createServer_def
    by (subst createServer_loop.simps) (simp add: l1 Let_def split: sum.splits)
qed

text \<open>
  Claim C9. \<^verbatim>\<open>createServer\<close> tries the requested port, then the next, then the one after,
  and no fourth: the ports tried are always \<open>port\<close>, or \<open>port, port + 1\<close>, or
  \<open>port, port + 1, port + 2\<close>. A port that is bound (\<^verbatim>\<open>EADDRINUSE\<close>) sends it to the next
  one, and the first port that listens is returned. If all three are bound, it fails with
  the last address-in-use error and the process exits with status 1.
\<close>

theorem port_retry_ceiling:
  "(tryPort port = Inl (Errno ''EADDRINUSE'') \<and> tryPort (port + 1) = Inl (Errno ''EADDRINUSE'') \<and>
    tryPort (port + 2) = Inl (Errno ''EADDRINUSE'') \<longrightarrow>
      createServer tryPort port = (Inl (Listen (Errno ''EADDRINUSE'')), [port, port + 1, port + 2]) \<and>
      main tryPort subscriberFails port = Exited 1) \<and>
   (tryPort port = Inl (Errno ''EADDRINUSE'') \<and> tryPort (port + 1) = Inr srv \<longrightarrow>
      createServer tryPort port = (Inr (srv, port + 1), [port, port + 1])) \<and>
   (tryPort port = Inl (Errno ''EADDRINUSE'') \<and> tryPort (port + 1) = Inl (Errno ''EADDRINUSE'') \<and>
    tryPort (port + 2) = Inr srv \<longrightarrow>
      createServer tryPort port = (Inr (srv, port + 2), [port, port + 1, port + 2])) \<and>
   (tryPort port = Inr srv \<longrightarrow> createServer tryPort port = (Inr (srv, port), [port])) \<and>
   (snd (createServer tryPort port) = [port] \<or>
    snd (createServer tryPort port) = [port, port + 1] \<or>
    snd (createServer tryPort port) = [port, port + 1, port + 2])"
proof -
  have a: "tryPort port = Inl (Errno ''EADDRINUSE'') \<and> tryPort (port + 1) = Inl (Errno ''EADDRINUSE'') \<and>
    tryPort (port + 2) = Inl (Errno ''EADDRINUSE'') \<longrightarrow>
      createServer tryPort port = (Inl (Listen (Errno ''EADDRINUSE'')), [port, port + 1, port + 2]) \<and>
      main tryPort subscriberFails port = Exited 1"
    by (simp add: createServer_unfold main_def)
  have b: "tryPort port = Inl (Errno ''EADDRINUSE'') \<and> tryPort (port + 1) = Inr srv \<longrightarrow>
      createServer tryPort port = (Inr (srv, port + 1), [port, port + 1])"
    by (simp add: createServer_unfold)
  have c: "tryPort port = Inl (Errno ''EADDRINUSE'') \<and> tryPort (port + 1) = Inl (Errno ''EADDRINUSE'') \<and>
    tryPort (port + 2) = Inr srv \<longrightarrow>
      createServer tryPort port = (Inr (srv, port + 2), [port, port + 1, port + 2])"
    by (simp add: createServer_unfold)
  have d: "tryPort port = Inr srv \<longrightarrow> createServer tryPort port = (Inr (srv, port), [port])"
    by (simp add: createServer_unfold)
  have e: "snd (createServer tryPort port) = [port] \<or>
    snd (createServer tryPort port) = [port, port + 1] \<or>
    snd (createServer tryPort port) = [port, port + 1, port + 2]"
    by (simp add: createServer_unfold split: sum.splits)
  from a b c d e show ?thesis by blast
qed

theorem port_retry_ceiling_witness:
  "all_bound 51765 = Inl (Errno ''EADDRINUSE'') \<and> all_bound (51765 + 1) = Inl (Errno ''EADDRINUSE'') \<and>
   all_bound (51765 + 2) = Inl (Errno ''EADDRINUSE'') \<and>
   createServer all_bound 51765 = (Inl (Listen (Errno ''EADDRINUSE'')), [51765, 51766, 51767]) \<and>
   main all_bound False 51765 = Exited 1 \<and>
   first_bound 51765 = Inl (Errno ''EADDRINUSE'') \<and> first_bound (51765 + 1) = Inr 7 \<and>
   createServer first_bound 51765 = (Inr (7, 51766), [51765, 51766])"
proof -
  have h: "all_bound 51765 = Inl (Errno ''EADDRINUSE'') \<and> all_bound (51765 + 1) = Inl (Errno ''EADDRINUSE'') \<and>
   all_bound (51765 + 2) = Inl (Errno ''EADDRINUSE'')" by (simp add: all_bound_def)
  have g: "first_bound 51765 = Inl (Errno ''EADDRINUSE'') \<and> first_bound (51765 + 1) = Inr 7"
    by (simp add: first_bound_def)
  from port_retry_ceiling [of all_bound 51765 False] h
  have 1: "createServer all_bound 51765 = (Inl (Listen (Errno ''EADDRINUSE'')), [51765, 51765 + 1, 51765 + 2]) \<and>
      main all_bound False 51765 = Exited 1" by blast
  from port_retry_ceiling [of first_bound 51765 _ 7] g
  have 2: "createServer first_bound 51765 = (Inr (7, 51765 + 1), [51765, 51765 + 1])" by blast
  from h g 1 2 show ?thesis by simp
qed

section \<open>Properties of the connection lifecycle\<close>

subsection \<open>Listener: shutdown and backoff\<close>

lemma listener_run_append: "listener_run (xs @ ys) s = listener_run ys (listener_run xs s)"
  by (induction xs arbitrary: s) auto

lemma shutting_down_handler:
  assumes "isShuttingDown s"
  shows "isShuttingDown (listener_handler e s) \<and>
         setTimeouts (listener_handler e s) = setTimeouts s \<and>
         wsCreated (listener_handler e s) = wsCreated s"
  using assms
  by (cases e)
     (auto simp: connectToBridge_def ws_open_def ws_close_def reconnect_timer_def heartbeat_tick_def
        shutdown_def scheduleReconnect_def startHeartbeat_def stopHeartbeat_def register_def
        sendToWs_def Let_def split: option.splits)

lemma shutting_down_step:
  assumes "isShuttingDown s"
  shows "isShuttingDown (listener_step e s) \<and>
         setTimeouts (listener_step e s) = setTimeouts s \<and>
         wsCreated (listener_step e s) = wsCreated s"
  using shutting_down_handler [OF assms] assms by (simp add: listener_step_def)

lemma shutting_down_run:
  "isShuttingDown s \<Longrightarrow>
     isShuttingDown (listener_run es s) \<and> setTimeouts (listener_run es s) = setTimeouts s \<and>
     wsCreated (listener_run es s) = wsCreated s"
proof (induction es arbitrary: s)
  case Nil then show ?case by simp
next
  case (Cons e es)
  from shutting_down_step [OF Cons.prems, of e] Cons.IH [of "listener_step e s"]
  show ?case by simp
qed

lemma isShuttingDown_shutdown: "isShuttingDown (shutdown s)"
  by (simp add: shutdown_def stopHeartbeat_def Let_def split: option.splits)

lemma failed_attempt:
  assumes "\<not> isShuttingDown s" and "exitCode s = None"
  shows "\<not> isShuttingDown (listener_run [WsClose i, ReconnectTimer] s) \<and>
         exitCode (listener_run [WsClose i, ReconnectTimer] s) = None \<and>
         setTimeouts (listener_run [WsClose i, ReconnectTimer] s) = setTimeouts s @ [reconnectDelay s] \<and>
         reconnectDelay (listener_run [WsClose i, ReconnectTimer] s) =
           min (reconnectDelay s * 2) MAX_RECONNECT_DELAY"
  using assms
  by (simp add: listener_step_def ws_close_def scheduleReconnect_def stopHeartbeat_def
      reconnect_timer_def connectToBridge_def Let_def)

lemma backoff_arith:
  fixes d m :: int
  assumes "0 \<le> m"  "0 \<le> d"
  shows "min (min (d * 2 ^ n) m * 2) m = min (d * 2 ^ Suc n) m"
proof (cases "d * 2 ^ n \<le> m")
  case True
  then show ?thesis by (simp add: mult.assoc mult.commute)
next
  case False
  then have "m < d * 2 ^ n" by simp
  moreover have "d * 2 ^ Suc n = 2 * (d * 2 ^ n)" by simp
  moreover have "0 \<le> d * 2 ^ n" using assms by simp
  ultimately have "m < d * 2 ^ Suc n" by linarith
  with False assms show ?thesis by simp
qed

lemma failed_attempts_run:
  assumes "\<not> isShuttingDown s" and "exitCode s = None" and "0 \<le> reconnectDelay s"
      and "reconnectDelay s \<le> MAX_RECONNECT_DELAY"
  shows "\<not> isShuttingDown (listener_run (failed_attempts n) s) \<and>
         exitCode (listener_run (failed_attempts n) s) = None \<and>
         setTimeouts (listener_run (failed_attempts n) s) =
           setTimeouts s @ map (\<lambda>k. min (reconnectDelay s * 2 ^ k) MAX_RECONNECT_DELAY) [0..<n] \<and>
         reconnectDelay (listener_run (failed_attempts n) s) =
           min (reconnectDelay s * 2 ^ n) MAX_RECONNECT_DELAY"
proof (induction n)
  case 0
  with assms show ?case by simp
next
  case (Suc n)
  let ?s = "listener_run (failed_attempts n) s"
  have r: "listener_run (failed_attempts (Suc n)) s = listener_run [WsClose n, ReconnectTimer] ?s"
    by (simp add: listener_run_append)
  from Suc have a: "\<not> isShuttingDown ?s" "exitCode ?s = None" by simp_all
  note f = failed_attempt [OF a, of n]
  from Suc have d: "reconnectDelay ?s = min (reconnectDelay s * 2 ^ n) MAX_RECONNECT_DELAY"
    and t: "setTimeouts ?s = setTimeouts s @ map (\<lambda>k. min (reconnectDelay s * 2 ^ k) MAX_RECONNECT_DELAY) [0..<n]"
    by simp_all
  have "min (min (reconnectDelay s * 2 ^ n) MAX_RECONNECT_DELAY * 2) MAX_RECONNECT_DELAY =
        min (reconnectDelay s * 2 ^ Suc n) MAX_RECONNECT_DELAY"
    using assms(3) by (intro backoff_arith) (simp_all add: MAX_RECONNECT_DELAY_def)
  with f r d t show ?case by simp
qed

subsection \<open>Producer: reconnect timers and manual close\<close>

lemma transport_run_append: "transport_run (xs @ ys) s = transport_run ys (transport_run xs s)"
  by (induction xs arbitrary: s) auto

lemma tracked_pending_cases:
  "timers_tracked s \<Longrightarrow> reconnectTimer s = Some h \<Longrightarrow> removeAll h (pendingTimers s) = []"
  by (induction "pendingTimers s" arbitrary: s) (auto simp: timers_tracked_def list_all_iff removeAll_filter_not_eq filter_empty_conv)

lemma tracked_None: "timers_tracked s \<Longrightarrow> reconnectTimer s = None \<Longrightarrow> pendingTimers s = []"
  by (cases "pendingTimers s") (auto simp: timers_tracked_def)

lemma tracked_clear:
  "timers_tracked s \<Longrightarrow> pendingTimers (clear_reconnectTimer s) = [] \<and> reconnectTimer (clear_reconnectTimer s) = None"
  by (auto simp: clear_reconnectTimer_def tracked_pending_cases tracked_None split: option.splits)

lemma clear_other_fields:
  "connectionState (clear_reconnectTimer s) = connectionState s"
  "reconnectAttempts (clear_reconnectTimer s) = reconnectAttempts s"
  "isManualClose (clear_reconnectTimer s) = isManualClose s"
  "isReconnecting (clear_reconnectTimer s) = isReconnecting s"
  "t_setTimeouts (clear_reconnectTimer s) = t_setTimeouts s"
  "t_wsCreated (clear_reconnectTimer s) = t_wsCreated s"
  "t_ws (clear_reconnectTimer s) = t_ws s"
  by (simp_all add: clear_reconnectTimer_def split: option.splits)

lemma tracked_irrelevant:
  "pendingTimers s' = pendingTimers s \<Longrightarrow> reconnectTimer s' = reconnectTimer s \<Longrightarrow>
   timers_tracked s \<Longrightarrow> timers_tracked s'"
  by (simp add: timers_tracked_def)

lemma tracked_empty: "pendingTimers s = [] \<Longrightarrow> timers_tracked s"
  by (simp add: timers_tracked_def)

lemma tracked_setState: "timers_tracked s \<Longrightarrow> timers_tracked (Transport_setState p s)"
  by (simp add: Transport_setState_def timers_tracked_def)

lemma tracked_schedule:
  assumes "timers_tracked s" shows "timers_tracked (Transport_scheduleReconnect s)"
proof (cases "reconnectAttempts s \<ge> MAX_RETRIES")
  case True with assms show ?thesis by (simp add: Transport_scheduleReconnect_def)
next
  case False
  from tracked_clear [OF assms] have "pendingTimers (clear_reconnectTimer s) = []" by simp
  with False show ?thesis
    by (simp add: Transport_scheduleReconnect_def Let_def timers_tracked_def)
qed

lemma tracked_connect:
  assumes "timers_tracked s" shows "timers_tracked (Transport_connect throws s)"
proof (cases "connectionState s \<noteq> DISCONNECTED")
  case True
  with assms show ?thesis by (simp add: Transport_connect_def)
next
  case False
  let ?s1 = "Transport_setState CONNECTING (s\<lparr>isManualClose := False\<rparr>)"
  have a: "timers_tracked ?s1"
    using assms by (simp add: timers_tracked_def Transport_setState_def)
  show ?thesis
  proof (cases throws)
    case True
    have "timers_tracked (Transport_scheduleReconnect (Transport_setState DISCONNECTED ?s1))"
      using a by (simp add: tracked_schedule tracked_setState)
    with False True show ?thesis by (simp add: Transport_connect_def Let_def)
  next
    case no: False
    have "timers_tracked (?s1\<lparr>t_ws := Some (t_wsCreated ?s1), t_wsCreated := t_wsCreated ?s1 + 1\<rparr>)"
      using a by (simp add: timers_tracked_def)
    with False no show ?thesis by (simp add: Transport_connect_def Let_def)
  qed
qed

lemma tracked_step:
  assumes "timers_tracked s" shows "timers_tracked (transport_step e s)"
proof (cases e)
  case (Connect throws)
  with assms show ?thesis by (simp add: tracked_connect)
next
  case Disconnect
  have a: "timers_tracked (s\<lparr>isManualClose := True\<rparr>)" using assms by (simp add: timers_tracked_def)
  from tracked_clear [OF a] have "pendingTimers (clear_reconnectTimer (s\<lparr>isManualClose := True\<rparr>)) = []" by simp
  then have "pendingTimers (Transport_disconnect s) = []"
    by (simp add: Transport_disconnect_def Let_def Transport_setState_def split: option.splits)
  with Disconnect show ?thesis by (simp add: tracked_empty)
next
  case SocketOpen
  have a: "timers_tracked ((Transport_setState CONNECTED s)\<lparr>reconnectAttempts := 0, isReconnecting := False\<rparr>)"
    using assms by (simp add: timers_tracked_def Transport_setState_def)
  from tracked_clear [OF a] SocketOpen show ?thesis
    by (simp add: Transport_on_open_def Transport_resetReconnect_def tracked_empty)
next
  case SocketClose
  have a: "timers_tracked (Transport_setState DISCONNECTED (s\<lparr>t_ws := None\<rparr>))"
    using assms by (simp add: timers_tracked_def Transport_setState_def)
  then have b: "timers_tracked ((Transport_setState DISCONNECTED (s\<lparr>t_ws := None\<rparr>))\<lparr>isReconnecting := True\<rparr>)"
    by (simp add: timers_tracked_def)
  from a b SocketClose show ?thesis
    by (simp add: Transport_on_close_def Let_def tracked_schedule)
next
  case SocketError
  with assms show ?thesis by (simp add: Transport_on_error_def timers_tracked_def split: option.splits)
next
  case (TimerFires h throws)
  show ?thesis
  proof (cases "h \<in> set (pendingTimers s)")
    case True
    then have "reconnectTimer s = Some h" using assms by (auto simp: timers_tracked_def list_all_iff)
    with assms have "removeAll h (pendingTimers s) = []" by (simp add: tracked_pending_cases)
    then have "timers_tracked (s\<lparr>pendingTimers := removeAll h (pendingTimers s)\<rparr>)"
      by (simp add: timers_tracked_def)
    with True TimerFires show ?thesis by (simp add: Transport_timer_def tracked_connect)
  next
    case False
    with assms TimerFires show ?thesis by (simp add: Transport_timer_def)
  qed
qed

lemma tracked_run: "timers_tracked s \<Longrightarrow> timers_tracked (transport_run es s)"
  by (induction es arbitrary: s) (auto simp: tracked_step)

lemma tracked_init: "timers_tracked transport_init"
  by (simp add: timers_tracked_def transport_init_def)

lemma disconnect_quiet:
  assumes "timers_tracked s"
  shows "isManualClose (Transport_disconnect s) \<and> pendingTimers (Transport_disconnect s) = [] \<and>
         t_setTimeouts (Transport_disconnect s) = t_setTimeouts s \<and>
         t_wsCreated (Transport_disconnect s) = t_wsCreated s \<and>
         connectionState (Transport_disconnect s) = DISCONNECTED"
proof -
  have a: "timers_tracked (s\<lparr>isManualClose := True\<rparr>)" using assms by (simp add: timers_tracked_def)
  from tracked_clear [OF a] show ?thesis
    by (simp add: Transport_disconnect_def Let_def Transport_setState_def clear_other_fields
        split: option.splits)
qed

lemma manual_step:
  assumes "isManualClose s" and "pendingTimers s = []" and "\<not> is_Connect e"
  shows "isManualClose (transport_step e s) \<and> pendingTimers (transport_step e s) = [] \<and>
         t_setTimeouts (transport_step e s) = t_setTimeouts s \<and>
         t_wsCreated (transport_step e s) = t_wsCreated s"
proof (cases e)
  case (Connect throws) with assms show ?thesis by simp
next
  case Disconnect
  have "timers_tracked s" using assms by (simp add: tracked_empty)
  from disconnect_quiet [OF this] Disconnect show ?thesis by simp
next
  case SocketOpen
  have a: "timers_tracked ((Transport_setState CONNECTED s)\<lparr>reconnectAttempts := 0, isReconnecting := False\<rparr>)"
    using assms by (simp add: timers_tracked_def Transport_setState_def)
  from tracked_clear [OF a] SocketOpen assms show ?thesis
    by (simp add: Transport_on_open_def Transport_resetReconnect_def clear_other_fields Transport_setState_def)
next
  case SocketClose
  with assms show ?thesis by (simp add: Transport_on_close_def Let_def Transport_setState_def)
next
  case SocketError
  with assms show ?thesis by (simp add: Transport_on_error_def split: option.splits)
next
  case (TimerFires h throws)
  with assms show ?thesis by (simp add: Transport_timer_def)
qed

lemma manual_run:
  "isManualClose s \<Longrightarrow> pendingTimers s = [] \<Longrightarrow> \<forall>e\<in>set es. \<not> is_Connect e \<Longrightarrow>
     isManualClose (transport_run es s) \<and> pendingTimers (transport_run es s) = [] \<and>
     t_setTimeouts (transport_run es s) = t_setTimeouts s \<and>
     t_wsCreated (transport_run es s) = t_wsCreated s"
proof (induction es arbitrary: s)
  case Nil then show ?case by simp
next
  case (Cons e es)
  from Cons.prems have ne: "\<not> is_Connect e" and rest: "\<forall>e\<in>set es. \<not> is_Connect e" by simp_all
  note m = manual_step [OF Cons.prems(1) Cons.prems(2) ne]
  from m have a: "isManualClose (transport_step e s)" and b: "pendingTimers (transport_step e s) = []"
    by simp_all
  from Cons.IH [OF a b rest] m show ?case by simp
qed

lemma failed_constructions_run:
  "transport_run (failed_constructions n) transport_init = after_failures n"
proof (induction n)
  case 0
  show ?case by (simp add: after_failures_def)
next
  case (Suc n)
  have r: "transport_run (failed_constructions (Suc n)) transport_init =
        transport_step (if n = 0 then Connect True else TimerFires (n - 1) True) (after_failures n)"
    by (simp add: transport_run_append Suc)
  consider "n = 0" | "1 \<le> n" "n < 5" | "n = 5" | "n > 5" by linarith
  then show ?case
  proof cases
    case 1
    then show ?thesis unfolding r
      by (simp add: after_failures_def transport_init_def Transport_connect_def Transport_setState_def
          Transport_scheduleReconnect_def clear_reconnectTimer_def MAX_RETRIES_def Let_def)
  next
    case 2
    then have m: "min n MAX_RETRIES = n" "min (Suc n) MAX_RETRIES = Suc n" "n \<le> MAX_RETRIES"
        "Suc n \<le> MAX_RETRIES" "\<not> MAX_RETRIES \<le> n"
      by (simp_all add: MAX_RETRIES_def)
    from 2 show ?thesis unfolding r
      by (simp add: after_failures_def m transport_init_def Transport_timer_def Transport_connect_def
          Transport_setState_def Transport_scheduleReconnect_def clear_reconnectTimer_def Let_def)
  next
    case 3
    then show ?thesis unfolding r
      by (simp add: after_failures_def transport_init_def Transport_timer_def Transport_connect_def
          Transport_setState_def Transport_scheduleReconnect_def clear_reconnectTimer_def
          MAX_RETRIES_def Let_def)
  next
    case 4
    then have m: "min n MAX_RETRIES = 5" "min (Suc n) MAX_RETRIES = 5" "\<not> n \<le> MAX_RETRIES"
        "\<not> Suc n \<le> MAX_RETRIES"
      by (simp_all add: MAX_RETRIES_def)
    from 4 show ?thesis unfolding r
      by (simp add: after_failures_def m transport_init_def Transport_timer_def)
  qed
qed

lemma schedule_below_ceiling:
  "reconnectAttempts s < MAX_RETRIES \<Longrightarrow>
     t_setTimeouts (Transport_scheduleReconnect s) =
       t_setTimeouts s @ [RETRY_INTERVAL * 2 ^ reconnectAttempts s] \<and>
     reconnectAttempts (Transport_scheduleReconnect s) = reconnectAttempts s + 1"
  by (simp add: Transport_scheduleReconnect_def Let_def clear_other_fields)

lemma schedule_at_ceiling:
  "MAX_RETRIES \<le> reconnectAttempts s \<Longrightarrow> Transport_scheduleReconnect s = s"
  by (simp add: Transport_scheduleReconnect_def)

lemma open_resets: "reconnectAttempts (Transport_on_open s) = 0 \<and> connectionState (Transport_on_open s) = CONNECTED"
  by (simp add: Transport_on_open_def Transport_resetReconnect_def clear_other_fields Transport_setState_def)

lemma schedule_frame:
  assumes "t_setTimeouts x = t_setTimeouts s" and "reconnectAttempts x = reconnectAttempts s"
  shows "(t_setTimeouts (Transport_scheduleReconnect x) = t_setTimeouts s \<and>
          reconnectAttempts (Transport_scheduleReconnect x) = reconnectAttempts s) \<or>
         (reconnectAttempts s < MAX_RETRIES \<and>
          t_setTimeouts (Transport_scheduleReconnect x) =
            t_setTimeouts s @ [RETRY_INTERVAL * 2 ^ reconnectAttempts s] \<and>
          reconnectAttempts (Transport_scheduleReconnect x) = reconnectAttempts s + 1)"
proof (cases "reconnectAttempts x < MAX_RETRIES")
  case True
  from schedule_below_ceiling [OF True] assms True show ?thesis by simp
next
  case False
  then have "Transport_scheduleReconnect x = x" by (simp add: schedule_at_ceiling)
  with assms show ?thesis by simp
qed

lemma connect_frame:
  assumes "t_setTimeouts x = t_setTimeouts s" and "reconnectAttempts x = reconnectAttempts s"
  shows "(t_setTimeouts (Transport_connect throws x) = t_setTimeouts s \<and>
          reconnectAttempts (Transport_connect throws x) = reconnectAttempts s) \<or>
         (reconnectAttempts s < MAX_RETRIES \<and>
          t_setTimeouts (Transport_connect throws x) =
            t_setTimeouts s @ [RETRY_INTERVAL * 2 ^ reconnectAttempts s] \<and>
          reconnectAttempts (Transport_connect throws x) = reconnectAttempts s + 1)"
proof (cases "connectionState x \<noteq> DISCONNECTED \<or> \<not> throws")
  case True
  with assms show ?thesis by (auto simp: Transport_connect_def Let_def Transport_setState_def)
next
  case False
  let ?y = "Transport_setState DISCONNECTED (Transport_setState CONNECTING (x\<lparr>isManualClose := False\<rparr>))"
  have c: "Transport_connect throws x = Transport_scheduleReconnect ?y"
    using False by (simp add: Transport_connect_def Let_def)
  have y: "t_setTimeouts ?y = t_setTimeouts s" "reconnectAttempts ?y = reconnectAttempts s"
    using assms by (simp_all add: Transport_setState_def)
  from schedule_frame [OF y] show ?thesis by (simp only: c)
qed

lemma transport_step_frame:
  "(e = SocketOpen \<and> t_setTimeouts (transport_step e s) = t_setTimeouts s \<and>
    reconnectAttempts (transport_step e s) = 0) \<or>
   (e \<noteq> SocketOpen \<and> t_setTimeouts (transport_step e s) = t_setTimeouts s \<and>
    reconnectAttempts (transport_step e s) = reconnectAttempts s) \<or>
   (e \<noteq> SocketOpen \<and> reconnectAttempts s < MAX_RETRIES \<and>
    t_setTimeouts (transport_step e s) = t_setTimeouts s @ [RETRY_INTERVAL * 2 ^ reconnectAttempts s] \<and>
    reconnectAttempts (transport_step e s) = reconnectAttempts s + 1)"
proof (cases e)
  case (Connect throws)
  from connect_frame [of s s throws] Connect show ?thesis by simp
next
  case Disconnect
  then show ?thesis
    by (simp add: Transport_disconnect_def Let_def Transport_setState_def clear_other_fields
        split: option.splits)
next
  case SocketOpen
  then show ?thesis
    by (simp add: Transport_on_open_def Transport_resetReconnect_def Transport_setState_def
        clear_other_fields)
next
  case SocketClose
  let ?y = "(Transport_setState DISCONNECTED (s\<lparr>t_ws := None\<rparr>))\<lparr>isReconnecting := True\<rparr>"
  have y: "t_setTimeouts ?y = t_setTimeouts s" "reconnectAttempts ?y = reconnectAttempts s"
    by (simp_all add: Transport_setState_def)
  have "transport_step e s = Transport_scheduleReconnect ?y \<or>
        transport_step e s = Transport_setState DISCONNECTED (s\<lparr>t_ws := None\<rparr>)"
    using SocketClose by (simp add: Transport_on_close_def Let_def)
  then show ?thesis
  proof
    assume a: "transport_step e s = Transport_scheduleReconnect ?y"
    from schedule_frame [OF y] have
      "(t_setTimeouts (transport_step e s) = t_setTimeouts s \<and>
          reconnectAttempts (transport_step e s) = reconnectAttempts s) \<or>
         (reconnectAttempts s < MAX_RETRIES \<and>
          t_setTimeouts (transport_step e s) =
            t_setTimeouts s @ [RETRY_INTERVAL * 2 ^ reconnectAttempts s] \<and>
          reconnectAttempts (transport_step e s) = reconnectAttempts s + 1)"
      by (simp only: a)
    with SocketClose show ?thesis by blast
  next
    assume "transport_step e s = Transport_setState DISCONNECTED (s\<lparr>t_ws := None\<rparr>)"
    with SocketClose show ?thesis by (simp add: Transport_setState_def)
  qed
next
  case SocketError
  then show ?thesis by (simp add: Transport_on_error_def split: option.splits)
next
  case (TimerFires h throws)
  let ?y = "s\<lparr>pendingTimers := removeAll h (pendingTimers s)\<rparr>"
  have y: "t_setTimeouts ?y = t_setTimeouts s" "reconnectAttempts ?y = reconnectAttempts s" by simp_all
  show ?thesis
  proof (cases "h \<in> set (pendingTimers s)")
    case True
    then have a: "transport_step e s = Transport_connect throws ?y"
      using TimerFires by (simp add: Transport_timer_def)
    from connect_frame [OF y, of throws] have
      "(t_setTimeouts (transport_step e s) = t_setTimeouts s \<and>
          reconnectAttempts (transport_step e s) = reconnectAttempts s) \<or>
         (reconnectAttempts s < MAX_RETRIES \<and>
          t_setTimeouts (transport_step e s) =
            t_setTimeouts s @ [RETRY_INTERVAL * 2 ^ reconnectAttempts s] \<and>
          reconnectAttempts (transport_step e s) = reconnectAttempts s + 1)"
      by (simp only: a)
    with TimerFires show ?thesis by blast
  next
    case False
    with TimerFires show ?thesis by (simp add: Transport_timer_def)
  qed
qed

lemma delays_since_open:
  assumes "\<forall>e\<in>set es. e \<noteq> SocketOpen" and "reconnectAttempts s \<le> MAX_RETRIES"
  shows "reconnectAttempts s \<le> reconnectAttempts (transport_run es s) \<and>
         reconnectAttempts (transport_run es s) \<le> MAX_RETRIES \<and>
         t_setTimeouts (transport_run es s) =
           t_setTimeouts s @
             map (\<lambda>k. RETRY_INTERVAL * 2 ^ k) [reconnectAttempts s..<reconnectAttempts (transport_run es s)]"
  using assms
proof (induction es arbitrary: s)
  case Nil
  then show ?case by simp
next
  case (Cons e es)
  let ?s1 = "transport_step e s"
  from Cons.prems have ne: "e \<noteq> SocketOpen" and rest: "\<forall>e\<in>set es. e \<noteq> SocketOpen" by simp_all
  from transport_step_frame [of e s] ne
  consider (same) "t_setTimeouts ?s1 = t_setTimeouts s" "reconnectAttempts ?s1 = reconnectAttempts s"
    | (sched) "reconnectAttempts s < MAX_RETRIES"
        "t_setTimeouts ?s1 = t_setTimeouts s @ [RETRY_INTERVAL * 2 ^ reconnectAttempts s]"
        "reconnectAttempts ?s1 = reconnectAttempts s + 1"
    by blast
  then show ?case
  proof cases
    case same
    then have "reconnectAttempts ?s1 \<le> MAX_RETRIES" using Cons.prems(2) by simp
    from Cons.IH [OF rest this] same show ?thesis by simp
  next
    case sched
    then have b: "reconnectAttempts ?s1 \<le> MAX_RETRIES" by simp
    note ih = Cons.IH [OF rest b]
    let ?n = "reconnectAttempts (transport_run es ?s1)"
    from ih sched have le: "Suc (reconnectAttempts s) \<le> ?n" by simp
    have "[reconnectAttempts s..<?n] = reconnectAttempts s # [Suc (reconnectAttempts s)..<?n]"
      using le by (simp add: upt_conv_Cons)
    with ih sched show ?thesis by simp
  qed
qed

lemma open_then_close_schedules_initial:
  assumes "\<not> isManualClose s"
  shows "t_setTimeouts (transport_run [SocketOpen, SocketClose] s) = t_setTimeouts s @ [RETRY_INTERVAL]"
  using assms
  by (simp add: Transport_on_open_def Transport_on_close_def Transport_resetReconnect_def
      Transport_setState_def Transport_scheduleReconnect_def clear_reconnectTimer_def
      MAX_RETRIES_def Let_def split: option.splits)

lemma listener_backoff:
  "setTimeouts (listener_run (ConnectToBridge # failed_attempts n) listener_init) =
     map (\<lambda>k. min (INITIAL_RECONNECT_DELAY * 2 ^ k) MAX_RECONNECT_DELAY) [0..<n] \<and>
   setTimeouts (listener_run (ConnectToBridge # failed_attempts n @ [WsOpen n, WsClose n]) listener_init) =
     map (\<lambda>k. min (INITIAL_RECONNECT_DELAY * 2 ^ k) MAX_RECONNECT_DELAY) [0..<n] @
       [INITIAL_RECONNECT_DELAY]"
proof -
  let ?s0 = "connectToBridge listener_init"
  have s0: "\<not> isShuttingDown ?s0" "exitCode ?s0 = None" "0 \<le> reconnectDelay ?s0"
      "reconnectDelay ?s0 \<le> MAX_RECONNECT_DELAY" "setTimeouts ?s0 = []"
      "reconnectDelay ?s0 = INITIAL_RECONNECT_DELAY"
    by (simp_all add: connectToBridge_def listener_init_def INITIAL_RECONNECT_DELAY_def
        MAX_RECONNECT_DELAY_def)
  have st: "listener_run (ConnectToBridge # es) listener_init = listener_run es ?s0" for es
    by (simp add: listener_step_def listener_init_def)
  note fa = failed_attempts_run [OF s0(1-4), of n]
  have a: "setTimeouts (listener_run (ConnectToBridge # failed_attempts n) listener_init) =
     map (\<lambda>k. min (INITIAL_RECONNECT_DELAY * 2 ^ k) MAX_RECONNECT_DELAY) [0..<n]"
    unfolding st using fa s0(5,6) by simp
  let ?sn = "listener_run (failed_attempts n) ?s0"
  have sn: "\<not> isShuttingDown ?sn" "exitCode ?sn = None" using fa by simp_all
  have "setTimeouts (listener_run [WsOpen n, WsClose n] ?sn) = setTimeouts ?sn @ [INITIAL_RECONNECT_DELAY]"
    using sn
    by (simp add: listener_step_def ws_open_def ws_close_def startHeartbeat_def stopHeartbeat_def
        register_def sendToWs_def scheduleReconnect_def Let_def split: option.splits)
  then have b: "setTimeouts (listener_run (ConnectToBridge # failed_attempts n @ [WsOpen n, WsClose n]) listener_init) =
     map (\<lambda>k. min (INITIAL_RECONNECT_DELAY * 2 ^ k) MAX_RECONNECT_DELAY) [0..<n] @
       [INITIAL_RECONNECT_DELAY]"
    unfolding st listener_run_append using fa s0(5,6) by simp
  from a b show ?thesis by blast
qed

lemma delays_from_start:
  assumes "\<forall>e\<in>set es. e \<noteq> SocketOpen"
  shows "reconnectAttempts (transport_run es transport_init) \<le> MAX_RETRIES \<and>
         t_setTimeouts (transport_run es transport_init) =
           map (\<lambda>k. RETRY_INTERVAL * 2 ^ k) [0..<reconnectAttempts (transport_run es transport_init)]"
proof -
  have "reconnectAttempts transport_init \<le> MAX_RETRIES" by (simp add: transport_init_def)
  from delays_since_open [OF assms this] show ?thesis by (simp add: transport_init_def)
qed

lemma delays_after_open:
  assumes "\<forall>e\<in>set es. e \<noteq> SocketOpen"
  shows "reconnectAttempts (transport_run es (transport_step SocketOpen s)) \<le> MAX_RETRIES \<and>
         t_setTimeouts (transport_run es (transport_step SocketOpen s)) =
           t_setTimeouts s @
             map (\<lambda>k. RETRY_INTERVAL * 2 ^ k)
               [0..<reconnectAttempts (transport_run es (transport_step SocketOpen s))]"
proof -
  have o: "reconnectAttempts (transport_step SocketOpen s) = 0"
    "t_setTimeouts (transport_step SocketOpen s) = t_setTimeouts s"
    using transport_step_frame [of SocketOpen s] by simp_all
  then have "reconnectAttempts (transport_step SocketOpen s) \<le> MAX_RETRIES" by simp
  from delays_since_open [OF assms this] o show ?thesis by simp
qed

subsection \<open>Backoff on both sides\<close>

text \<open>
  Claim C6, as the code has it. Listener: after the first connection attempt, \<open>n\<close>
  failures in a row schedule the delays \<open>min (1000 * 2 ^ k) 30000\<close> for \<open>k = 0, ..., n - 1\<close>,
  and when the next attempt opens and that connection later closes, the delay scheduled
  is 1000 again. Producer: there is no maximum delay but a ceiling of five retries. In
  every run of events from the initial state without an open event, and in every run
  without an open event that follows an open event in any state, the reconnects scheduled
  in that run are as many as \<^verbatim>\<open>reconnectAttempts\<close> counts, never more than five, and their
  delays are \<open>3000 * 2 ^ k\<close> for \<open>k = 0, 1, ...\<close> in the order of scheduling. Step by step: an
  open event schedules nothing and resets the count to 0; any other event either
  schedules nothing and leaves the count as it is, or schedules exactly one reconnect,
  delayed \<open>3000 * 2 ^ reconnectAttempts\<close>, with fewer than five counted before, and counts
  it. When \<open>m\<close> attempts in a row fail in the WebSocket constructor, the delays scheduled
  are \<open>3000 * 2 ^ k\<close> for all \<open>k\<close> below \<open>min m 5\<close>. After an open event the next close
  event, unless \<^verbatim>\<open>disconnect()\<close> was called, schedules a reconnect delayed 3000.
\<close>

theorem reconnect_backoff:
  "setTimeouts (listener_run (ConnectToBridge # failed_attempts n) listener_init) =
     map (\<lambda>k. min (INITIAL_RECONNECT_DELAY * 2 ^ k) MAX_RECONNECT_DELAY) [0..<n] \<and>
   setTimeouts (listener_run (ConnectToBridge # failed_attempts n @ [WsOpen n, WsClose n]) listener_init) =
     map (\<lambda>k. min (INITIAL_RECONNECT_DELAY * 2 ^ k) MAX_RECONNECT_DELAY) [0..<n] @
       [INITIAL_RECONNECT_DELAY] \<and>
   ((\<forall>e\<in>set es. e \<noteq> SocketOpen) \<longrightarrow>
      reconnectAttempts (transport_run es transport_init) \<le> MAX_RETRIES \<and>
      length (t_setTimeouts (transport_run es transport_init)) =
        reconnectAttempts (transport_run es transport_init) \<and>
      t_setTimeouts (transport_run es transport_init) =
        map (\<lambda>k. RETRY_INTERVAL * 2 ^ k) [0..<reconnectAttempts (transport_run es transport_init)]) \<and>
   ((\<forall>e\<in>set es'. e \<noteq> SocketOpen) \<longrightarrow>
      reconnectAttempts (transport_run es' (transport_step SocketOpen s)) \<le> MAX_RETRIES \<and>
      length (t_setTimeouts (transport_run es' (transport_step SocketOpen s))) =
        length (t_setTimeouts s) + reconnectAttempts (transport_run es' (transport_step SocketOpen s)) \<and>
      t_setTimeouts (transport_run es' (transport_step SocketOpen s)) =
        t_setTimeouts s @
          map (\<lambda>k. RETRY_INTERVAL * 2 ^ k)
            [0..<reconnectAttempts (transport_run es' (transport_step SocketOpen s))]) \<and>
   ((e = SocketOpen \<and> t_setTimeouts (transport_step e s) = t_setTimeouts s \<and>
     reconnectAttempts (transport_step e s) = 0) \<or>
    (e \<noteq> SocketOpen \<and> t_setTimeouts (transport_step e s) = t_setTimeouts s \<and>
     reconnectAttempts (transport_step e s) = reconnectAttempts s) \<or>
    (e \<noteq> SocketOpen \<and> reconnectAttempts s < MAX_RETRIES \<and>
     t_setTimeouts (transport_step e s) =
       t_setTimeouts s @ [RETRY_INTERVAL * 2 ^ reconnectAttempts s] \<and>
     reconnectAttempts (transport_step e s) = reconnectAttempts s + 1)) \<and>
   t_setTimeouts (transport_run (failed_constructions m) transport_init) =
     map (\<lambda>k. RETRY_INTERVAL * 2 ^ k) [0..<min m MAX_RETRIES] \<and>
   (\<not> isManualClose s \<longrightarrow>
      t_setTimeouts (transport_run [SocketOpen, SocketClose] s) = t_setTimeouts s @ [RETRY_INTERVAL])"
proof -
  note l = listener_backoff [of n]
  have a: "(\<forall>e\<in>set es. e \<noteq> SocketOpen) \<longrightarrow>
      reconnectAttempts (transport_run es transport_init) \<le> MAX_RETRIES \<and>
      length (t_setTimeouts (transport_run es transport_init)) =
        reconnectAttempts (transport_run es transport_init) \<and>
      t_setTimeouts (transport_run es transport_init) =
        map (\<lambda>k. RETRY_INTERVAL * 2 ^ k) [0..<reconnectAttempts (transport_run es transport_init)]"
  proof
    assume h: "\<forall>e\<in>set es. e \<noteq> SocketOpen"
    note d = delays_from_start [OF h]
    from d have "length (t_setTimeouts (transport_run es transport_init)) =
        length (map (\<lambda>k. RETRY_INTERVAL * 2 ^ k) [0..<reconnectAttempts (transport_run es transport_init)])"
      by simp
    then have "length (t_setTimeouts (transport_run es transport_init)) =
        reconnectAttempts (transport_run es transport_init)" by simp
    with d show "reconnectAttempts (transport_run es transport_init) \<le> MAX_RETRIES \<and>
      length (t_setTimeouts (transport_run es transport_init)) =
        reconnectAttempts (transport_run es transport_init) \<and>
      t_setTimeouts (transport_run es transport_init) =
        map (\<lambda>k. RETRY_INTERVAL * 2 ^ k) [0..<reconnectAttempts (transport_run es transport_init)]"
      by blast
  qed
  have b: "(\<forall>e\<in>set es'. e \<noteq> SocketOpen) \<longrightarrow>
      reconnectAttempts (transport_run es' (transport_step SocketOpen s)) \<le> MAX_RETRIES \<and>
      length (t_setTimeouts (transport_run es' (transport_step SocketOpen s))) =
        length (t_setTimeouts s) + reconnectAttempts (transport_run es' (transport_step SocketOpen s)) \<and>
      t_setTimeouts (transport_run es' (transport_step SocketOpen s)) =
        t_setTimeouts s @
          map (\<lambda>k. RETRY_INTERVAL * 2 ^ k)
            [0..<reconnectAttempts (transport_run es' (transport_step SocketOpen s))]"
  proof
    assume h: "\<forall>e\<in>set es'. e \<noteq> SocketOpen"
    let ?f = "transport_run es' (transport_step SocketOpen s)"
    note d = delays_after_open [OF h, of s]
    from d have "length (t_setTimeouts ?f) =
        length (t_setTimeouts s @ map (\<lambda>k. RETRY_INTERVAL * 2 ^ k) [0..<reconnectAttempts ?f])"
      by simp
    then have "length (t_setTimeouts ?f) = length (t_setTimeouts s) + reconnectAttempts ?f" by simp
    with d show "reconnectAttempts ?f \<le> MAX_RETRIES \<and>
      length (t_setTimeouts ?f) = length (t_setTimeouts s) + reconnectAttempts ?f \<and>
      t_setTimeouts ?f =
        t_setTimeouts s @ map (\<lambda>k. RETRY_INTERVAL * 2 ^ k) [0..<reconnectAttempts ?f]"
      by blast
  qed
  note c = transport_step_frame [of e s]
  have d: "t_setTimeouts (transport_run (failed_constructions m) transport_init) =
     map (\<lambda>k. RETRY_INTERVAL * 2 ^ k) [0..<min m MAX_RETRIES]"
    unfolding failed_constructions_run by (simp add: after_failures_def transport_init_def)
  have f: "\<not> isManualClose s \<longrightarrow>
      t_setTimeouts (transport_run [SocketOpen, SocketClose] s) = t_setTimeouts s @ [RETRY_INTERVAL]"
    using open_then_close_schedules_initial [of s] by blast
  from l a b c d f show ?thesis by blast
qed

theorem reconnect_backoff_witness:
  "setTimeouts (listener_run (ConnectToBridge # failed_attempts 7) listener_init) =
     [1000, 2000, 4000, 8000, 16000, 30000, 30000] \<and>
   setTimeouts (listener_run (ConnectToBridge # failed_attempts 2 @ [WsOpen 2, WsClose 2]) listener_init) =
     [1000, 2000, 1000] \<and>
   t_setTimeouts (transport_run (failed_constructions 3) transport_init) = [3000, 6000, 12000] \<and>
   reconnectAttempts (transport_run [Connect True, TimerFires 0 True] transport_init) = 2 \<and>
   t_setTimeouts (transport_run [Connect True, TimerFires 0 True] transport_init) = [3000, 6000] \<and>
   reconnectAttempts (transport_run [SocketClose]
      (transport_step SocketOpen (transport_run [Connect True, Connect False] transport_init))) = 1 \<and>
   t_setTimeouts (transport_run [SocketClose]
      (transport_step SocketOpen (transport_run [Connect True, Connect False] transport_init))) =
     [3000, 3000] \<and>
   \<not> isManualClose (transport_run [Connect True, Connect False] transport_init) \<and>
   t_setTimeouts (transport_run [SocketOpen, SocketClose]
      (transport_run [Connect True, Connect False] transport_init)) = [3000, 3000]"
proof -
  let ?es = "[Connect True, TimerFires 0 True]"
  let ?es' = "[SocketClose]"
  let ?s = "transport_run [Connect True, Connect False] transport_init"
  have u7: "[0..<7] = [0, 1, 2, 3, 4, 5, 6]" and u3: "[0..<3] = [0, 1, 2]" and u2: "[0..<2] = [0, 1]"
    by (simp_all add: upt_rec)
  have h: "\<forall>e\<in>set ?es. e \<noteq> SocketOpen" and h': "\<forall>e\<in>set ?es'. e \<noteq> SocketOpen" by simp_all
  have n: "reconnectAttempts (transport_run ?es transport_init) = 2"
    by (simp add: transport_init_def Transport_timer_def Transport_connect_def
        Transport_setState_def Transport_scheduleReconnect_def clear_reconnectTimer_def
        MAX_RETRIES_def Let_def)
  have s: "t_setTimeouts ?s = [3000]" "\<not> isManualClose ?s"
    by (simp_all add: transport_init_def Transport_connect_def
        Transport_setState_def Transport_scheduleReconnect_def clear_reconnectTimer_def
        MAX_RETRIES_def RETRY_INTERVAL_def Let_def)
  have n': "reconnectAttempts (transport_run ?es' (transport_step SocketOpen ?s)) = 1"
    by (simp add: transport_init_def Transport_connect_def Transport_on_open_def
        Transport_on_close_def Transport_resetReconnect_def
        Transport_setState_def Transport_scheduleReconnect_def clear_reconnectTimer_def
        MAX_RETRIES_def Let_def)
  note t7 = reconnect_backoff [of 7 ?es ?es' ?s _ 3]
  note t2 = reconnect_backoff [of 2 ?es ?es' ?s _ 3]
  from t7 have
    l7: "setTimeouts (listener_run (ConnectToBridge # failed_attempts 7) listener_init) =
       map (\<lambda>k. min (INITIAL_RECONNECT_DELAY * 2 ^ k) MAX_RECONNECT_DELAY) [0..<7]"
    and c3: "t_setTimeouts (transport_run (failed_constructions 3) transport_init) =
       map (\<lambda>k. RETRY_INTERVAL * 2 ^ k) [0..<min 3 MAX_RETRIES]"
    by blast+
  from t2 have
    l2: "setTimeouts (listener_run (ConnectToBridge # failed_attempts 2 @ [WsOpen 2, WsClose 2]) listener_init) =
     map (\<lambda>k. min (INITIAL_RECONNECT_DELAY * 2 ^ k) MAX_RECONNECT_DELAY) [0..<2] @
       [INITIAL_RECONNECT_DELAY]"
    by blast
  from t7 h have
    p: "t_setTimeouts (transport_run ?es transport_init) =
        map (\<lambda>k. RETRY_INTERVAL * 2 ^ k) [0..<reconnectAttempts (transport_run ?es transport_init)]"
    by blast
  from t7 h' have
    q: "t_setTimeouts (transport_run ?es' (transport_step SocketOpen ?s)) =
        t_setTimeouts ?s @
          map (\<lambda>k. RETRY_INTERVAL * 2 ^ k)
            [0..<reconnectAttempts (transport_run ?es' (transport_step SocketOpen ?s))]"
    by blast
  from t7 s(2) have
    r: "t_setTimeouts (transport_run [SocketOpen, SocketClose] ?s) = t_setTimeouts ?s @ [RETRY_INTERVAL]"
    by blast
  have l7': "setTimeouts (listener_run (ConnectToBridge # failed_attempts 7) listener_init) =
     [1000, 2000, 4000, 8000, 16000, 30000, 30000]"
    unfolding l7 by (simp add: u7 INITIAL_RECONNECT_DELAY_def MAX_RECONNECT_DELAY_def)
  have l2': "setTimeouts (listener_run (ConnectToBridge # failed_attempts 2 @ [WsOpen 2, WsClose 2]) listener_init) =
     [1000, 2000, 1000]"
    unfolding l2 by (simp add: u2 INITIAL_RECONNECT_DELAY_def MAX_RECONNECT_DELAY_def)
  have c3': "t_setTimeouts (transport_run (failed_constructions 3) transport_init) = [3000, 6000, 12000]"
    unfolding c3 by (simp add: u3 RETRY_INTERVAL_def MAX_RETRIES_def)
  have p': "t_setTimeouts (transport_run ?es transport_init) = [3000, 6000]"
    unfolding p n by (simp add: u2 RETRY_INTERVAL_def)
  have q': "t_setTimeouts (transport_run ?es' (transport_step SocketOpen ?s)) = [3000, 3000]"
    unfolding q n' s(1) by (simp add: RETRY_INTERVAL_def)
  have r': "t_setTimeouts (transport_run [SocketOpen, SocketClose] ?s) = [3000, 3000]"
    unfolding r s(1) by (simp add: RETRY_INTERVAL_def)
  from l7' l2' c3' n p' n' q' s(2) r' show ?thesis by blast
qed

text \<open>
  Claim C6 as stated fails on the producer: seven attempts failing in a row schedule five
  delays, the last of them 48000 ms and not capped, and after the fifth retry nothing is
  scheduled any more.
\<close>

theorem producer_stops_after_five_retries:
  "t_setTimeouts (transport_run
      [Connect True, TimerFires 0 True, TimerFires 1 True, TimerFires 2 True, TimerFires 3 True,
       TimerFires 4 True, TimerFires 5 True] transport_init) =
     [3000, 6000, 12000, 24000, 48000] \<and>
   pendingTimers (transport_run
      [Connect True, TimerFires 0 True, TimerFires 1 True, TimerFires 2 True, TimerFires 3 True,
       TimerFires 4 True, TimerFires 5 True] transport_init) = []"
  by (simp add: transport_init_def Transport_timer_def Transport_connect_def
          Transport_setState_def Transport_scheduleReconnect_def clear_reconnectTimer_def
          MAX_RETRIES_def RETRY_INTERVAL_def Let_def)

subsection \<open>Manual close\<close>

text \<open>
  Claim C7, as the code has it. Producer: from any state reached from the initial one,
  after \<^verbatim>\<open>disconnect()\<close> and for as long as \<^verbatim>\<open>connect()\<close> is not called again, no event
  (close, error, open, a timer, another disconnect) schedules a reconnect or constructs
  a socket, and no reconnect timer is pending. Listener: after \<^verbatim>\<open>shutdown()\<close> no run of
  events schedules a reconnect or constructs a socket, and the close handler itself
  schedules nothing, whether or not the process has exited.
\<close>

theorem no_reconnect_after_disconnect:
  assumes "\<forall>e\<in>set es. \<not> is_Connect e"
  shows "t_setTimeouts (transport_run es (Transport_disconnect (transport_run past transport_init))) =
           t_setTimeouts (transport_run past transport_init) \<and>
         t_wsCreated (transport_run es (Transport_disconnect (transport_run past transport_init))) =
           t_wsCreated (transport_run past transport_init) \<and>
         pendingTimers (transport_run es (Transport_disconnect (transport_run past transport_init))) = [] \<and>
         isManualClose (transport_run es (Transport_disconnect (transport_run past transport_init))) \<and>
         setTimeouts (listener_run les (shutdown l)) = setTimeouts l \<and>
         setTimeouts (ws_close i (listener_run les (shutdown l))) = setTimeouts l \<and>
         wsCreated (listener_run les (shutdown l)) = wsCreated l"
proof -
  let ?s = "transport_run past transport_init"
  have "timers_tracked ?s" using tracked_init by (rule tracked_run)
  from disconnect_quiet [OF this] have
    m: "isManualClose (Transport_disconnect ?s)" and p: "pendingTimers (Transport_disconnect ?s) = []"
    and t: "t_setTimeouts (Transport_disconnect ?s) = t_setTimeouts ?s"
    and w: "t_wsCreated (Transport_disconnect ?s) = t_wsCreated ?s"
    by simp_all
  note r = manual_run [OF m p assms]
  have sd: "isShuttingDown (shutdown l)" by (rule isShuttingDown_shutdown)
  have same: "setTimeouts (shutdown l) = setTimeouts l" "wsCreated (shutdown l) = wsCreated l"
    by (simp_all add: shutdown_def stopHeartbeat_def Let_def split: option.splits)
  note lr = shutting_down_run [OF sd, of les]
  from lr have "isShuttingDown (listener_run les (shutdown l))" by simp
  from shutting_down_handler [OF this, of "WsClose i"]
  have c: "setTimeouts (ws_close i (listener_run les (shutdown l))) = setTimeouts (listener_run les (shutdown l))"
    by simp
  from r t w lr same c show ?thesis by simp
qed

theorem no_reconnect_after_disconnect_witness:
  "t_setTimeouts (transport_run [SocketClose, SocketError, SocketClose]
      (Transport_disconnect (transport_run [Connect False, SocketOpen] transport_init))) = [] \<and>
   t_wsCreated (transport_run [SocketClose, SocketError, SocketClose]
      (Transport_disconnect (transport_run [Connect False, SocketOpen] transport_init))) = 1 \<and>
   setTimeouts (listener_run [WsClose 0] (shutdown (listener_run [ConnectToBridge, WsOpen 0] listener_init))) = [] \<and>
   setTimeouts (ws_close 0 (listener_run [] (shutdown (listener_run [ConnectToBridge, WsOpen 0] listener_init)))) = []"
proof -
  have h: "\<forall>e\<in>set [SocketClose, SocketError, SocketClose]. \<not> is_Connect e" by simp
  have p: "t_setTimeouts (transport_run [Connect False, SocketOpen] transport_init) = []"
    "t_wsCreated (transport_run [Connect False, SocketOpen] transport_init) = 1"
    by (simp_all add: transport_init_def Transport_connect_def Transport_on_open_def
        Transport_setState_def Transport_resetReconnect_def clear_reconnectTimer_def Let_def)
  have l: "setTimeouts (listener_run [ConnectToBridge, WsOpen 0] listener_init) = []"
    by (simp add: listener_init_def listener_step_def connectToBridge_def ws_open_def
        startHeartbeat_def stopHeartbeat_def register_def sendToWs_def)
  from no_reconnect_after_disconnect [OF h, of "[Connect False, SocketOpen]" "[WsClose 0]"
      "listener_run [ConnectToBridge, WsOpen 0] listener_init" 0]
    no_reconnect_after_disconnect [OF h, of "[Connect False, SocketOpen]" "[]"
      "listener_run [ConnectToBridge, WsOpen 0] listener_init" 0]
    p l
  show ?thesis by simp
qed

text \<open>
  Claim C7 as stated fails on the producer once \<^verbatim>\<open>connect()\<close> has been called again, as
  the port configuration does (\<^verbatim>\<open>Transport.disconnect(); Transport.connect();\<close>): the
  close event that arrives after that schedules a reconnect in 3000 ms.
\<close>

theorem close_after_reconnect_schedules:
  "t_setTimeouts (transport_run [Connect False, SocketOpen, Disconnect, Connect False] transport_init) = [] \<and>
   t_setTimeouts (transport_run [Connect False, SocketOpen, Disconnect, Connect False, SocketClose]
      transport_init) = [3000]"
  by (simp add: transport_init_def Transport_connect_def Transport_on_open_def Transport_on_close_def
      Transport_disconnect_def Transport_setState_def Transport_resetReconnect_def
      Transport_scheduleReconnect_def clear_reconnectTimer_def MAX_RETRIES_def RETRY_INTERVAL_def
      Let_def)

subsection \<open>Calling connect again\<close>

text \<open>
  Claim C8, as the code has it. Producer: \<^verbatim>\<open>connect()\<close> in phase CONNECTING or CONNECTED
  returns the state unchanged. Listener: \<^verbatim>\<open>connectToBridge\<close> returns the state unchanged
  only while \<^verbatim>\<open>isShuttingDown\<close> is set; otherwise, whatever the phase, it constructs a
  new socket and stores it in \<^verbatim>\<open>wsConnection\<close>.
\<close>

theorem connect_while_connected:
  "(connectionState s = CONNECTING \<or> connectionState s = CONNECTED \<longrightarrow>
      Transport_connect throws s = s) \<and>
   (isShuttingDown l \<longrightarrow> connectToBridge l = l) \<and>
   (\<not> isShuttingDown l \<longrightarrow>
      wsCreated (connectToBridge l) = wsCreated l + 1 \<and>
      wsConnection (connectToBridge l) = Some (wsCreated l) \<and>
      listener_phase (connectToBridge l) = CONNECTING)"
  by (auto simp: Transport_connect_def connectToBridge_def listener_phase_def)

theorem connect_while_connected_witness:
  "connectionState (transport_run [Connect False, SocketOpen] transport_init) = CONNECTED \<and>
   Transport_connect False (transport_run [Connect False, SocketOpen] transport_init) =
     transport_run [Connect False, SocketOpen] transport_init \<and>
   connectionState (transport_run [Connect False] transport_init) = CONNECTING \<and>
   Transport_connect False (transport_run [Connect False] transport_init) =
     transport_run [Connect False] transport_init \<and>
   isShuttingDown (shutdown listener_init) \<and>
   connectToBridge (shutdown listener_init) = shutdown listener_init \<and>
   \<not> isShuttingDown listener_init \<and> wsCreated (connectToBridge listener_init) = 1"
proof -
  have a: "connectionState (transport_run [Connect False, SocketOpen] transport_init) = CONNECTED"
    and b: "connectionState (transport_run [Connect False] transport_init) = CONNECTING"
    by (simp_all add: transport_init_def Transport_connect_def Transport_on_open_def
        Transport_setState_def Transport_resetReconnect_def clear_reconnectTimer_def Let_def)
  have c: "isShuttingDown (shutdown listener_init)" "\<not> isShuttingDown listener_init"
    "wsCreated listener_init = 0"
    by (simp_all add: shutdown_def listener_init_def stopHeartbeat_def Let_def)
  from connect_while_connected [of "transport_run [Connect False, SocketOpen] transport_init" False
        "shutdown listener_init"]
    connect_while_connected [of "transport_run [Connect False] transport_init" False listener_init]
    a b c
  show ?thesis by simp
qed

text \<open>
  Claim C8 as stated fails on the listener: with the connection open, a call of
  \<^verbatim>\<open>connectToBridge\<close> constructs a second socket and replaces \<^verbatim>\<open>wsConnection\<close>.
\<close>

theorem listener_connect_opens_second_transport:
  "listener_phase (listener_run [ConnectToBridge, WsOpen 0] listener_init) = CONNECTED \<and>
   wsCreated (listener_run [ConnectToBridge, WsOpen 0] listener_init) = 1 \<and>
   wsCreated (connectToBridge (listener_run [ConnectToBridge, WsOpen 0] listener_init)) = 2 \<and>
   wsConnection (connectToBridge (listener_run [ConnectToBridge, WsOpen 0] listener_init)) = Some 1"
  by (simp add: listener_init_def listener_step_def connectToBridge_def ws_open_def
        startHeartbeat_def stopHeartbeat_def register_def sendToWs_def listener_phase_def)

end
